theory Spec2Isabelle
  imports Main "HOL-Library.Sublist"
begin

section \<open>Strings of the host language\<close>

text \<open>
  The extractors of \<^verbatim>\<open>packages/core/src/tools/extract.ts\<close> work on JavaScript strings.
  A string is modelled as a \<^typ>\<open>string\<close> whose characters are the code units below 256, so
  the white space of \<^verbatim>\<open>trim\<close> and of the regular expression class \<^verbatim>\<open>\s\<close> is TAB, LF, VT,
  FF, CR, SPACE and NBSP, and the line terminators that \<^verbatim>\<open>.\<close> refuses are LF and CR.
\<close>

definition is_line_terminator :: "char \<Rightarrow> bool" where
  "is_line_terminator c \<longleftrightarrow> c = CHR 0x0A \<or> c = CHR 0x0D"

definition is_space :: "char \<Rightarrow> bool" where
  "is_space c \<longleftrightarrow>
     c = CHR 0x09 \<or> c = CHR 0x0A \<or> c = CHR 0x0B \<or> c = CHR 0x0C \<or> c = CHR 0x0D \<or>
     c = CHR 0x20 \<or> c = CHR 0xA0"

definition in_range :: "char \<Rightarrow> char \<Rightarrow> char \<Rightarrow> bool" where
  "in_range lo hi c \<longleftrightarrow> (of_char lo :: nat) \<le> of_char c \<and> (of_char c :: nat) \<le> of_char hi"

definition is_word :: "char \<Rightarrow> bool" where
  "is_word c \<longleftrightarrow>
     in_range (CHR ''a'') (CHR ''z'') c \<or> in_range (CHR ''A'') (CHR ''Z'') c \<or>
     in_range (CHR ''0'') (CHR ''9'') c \<or> c = CHR ''_''"

text \<open>\<^verbatim>\<open>String.prototype.trim\<close>: white space and line terminators go from both ends.\<close>

definition trim :: "string \<Rightarrow> string" where
  "trim s = rev (dropWhile is_space (rev (dropWhile is_space s)))"

text \<open>
  \<^verbatim>\<open>content.split('\n')\<close>: the empty string gives one empty line. The result is never
  empty, so the first branch of the \<open>case\<close> is never taken.
\<close>

fun split_nl :: "string \<Rightarrow> string list" where
  "split_nl [] = [[]]"
| "split_nl (c # cs) =
     (if c = CHR 0x0A then [] # split_nl cs
      else (case split_nl cs of [] \<Rightarrow> [[c]] | l # ls \<Rightarrow> (c # l) # ls))"

text \<open>Decimal rendering of a number inside a template literal.\<close>

definition digit_char :: "nat \<Rightarrow> char" where
  "digit_char d = ''0123456789'' ! d"

fun show_nat :: "nat \<Rightarrow> string" where
  "show_nat n = (if n < 10 then [digit_char n] else show_nat (n div 10) @ [digit_char (n mod 10)])"

declare show_nat.simps [simp del]

section \<open>Regular expressions\<close>

text \<open>
  The patterns of the source are regular expression literals. They are embedded as terms of
  \<open>re\<close> and run by a backtracking matcher that returns the successful continuations in
  the order in which the ECMAScript matcher tries them: alternatives left to right, a
  greedy quantifier longest first, a lazy one shortest first. An iteration of a quantifier
  that consumes nothing is refused, as in ECMAScript. No pattern of the source has a
  capture group under \<^verbatim>\<open>*\<close> or \<^verbatim>\<open>+\<close>, so captures are never reset.
\<close>

datatype citem = Ch char | Rng char char | WhiteSpace | WordChar

datatype re =
    Lit string
  | Set "citem list"
  | NotSet "citem list"
  | Dot
  | Seq re re
  | Alt re re
  | Star re
  | Lazy re
  | Opt re
  | Grp nat re
  | Bol
  | WordB

definition Plus :: "re \<Rightarrow> re" where
  "Plus r = Seq r (Star r)"

definition cat :: "re list \<Rightarrow> re" where
  "cat rs = foldr Seq rs (Lit [])"

fun in_citem :: "char \<Rightarrow> citem \<Rightarrow> bool" where
  "in_citem c (Ch d) = (c = d)"
| "in_citem c (Rng lo hi) = in_range lo hi c"
| "in_citem c WhiteSpace = is_space c"
| "in_citem c WordChar = is_word c"

text \<open>
  A matcher state: the text before the position (reversed), the text after it, and the
  captures made so far.
\<close>

type_synonym captures = "nat \<Rightarrow> string option"
type_synonym mstate = "string \<times> string \<times> captures"

definition one_char :: "(char \<Rightarrow> bool) \<Rightarrow> mstate \<Rightarrow> mstate list" where
  "one_char p st =
     (case st of (b, s, k) \<Rightarrow>
        (case s of [] \<Rightarrow> [] | x # xs \<Rightarrow> if p x then [(x # b, xs, k)] else []))"

definition progress :: "mstate \<Rightarrow> mstate \<Rightarrow> bool" where
  "progress st st' \<longleftrightarrow> length (fst (snd st')) < length (fst (snd st))"

primrec star :: "(mstate \<Rightarrow> mstate list) \<Rightarrow> nat \<Rightarrow> mstate \<Rightarrow> mstate list" where
  "star f 0 st = [st]"
| "star f (Suc n) st = concat (map (star f n) (filter (progress st) (f st))) @ [st]"

primrec lazy :: "(mstate \<Rightarrow> mstate list) \<Rightarrow> nat \<Rightarrow> mstate \<Rightarrow> mstate list" where
  "lazy f 0 st = [st]"
| "lazy f (Suc n) st = st # concat (map (lazy f n) (filter (progress st) (f st)))"

definition set_group :: "nat \<Rightarrow> mstate \<Rightarrow> mstate \<Rightarrow> mstate" where
  "set_group n st st' =
     (case st of (b, s, k) \<Rightarrow> case st' of (b', s', k') \<Rightarrow>
        (b', s', k'(n \<mapsto> take (length s - length s') s)))"

definition at_word :: "string \<Rightarrow> bool" where
  "at_word s \<longleftrightarrow> (case s of [] \<Rightarrow> False | x # _ \<Rightarrow> is_word x)"

fun rm :: "re \<Rightarrow> mstate \<Rightarrow> mstate list" where
  "rm (Lit w) st =
     (case st of (b, s, k) \<Rightarrow>
        if prefix w s then [(rev w @ b, drop (length w) s, k)] else [])"
| "rm (Set cs) st = one_char (\<lambda>c. \<exists>i \<in> set cs. in_citem c i) st"
| "rm (NotSet cs) st = one_char (\<lambda>c. \<not> (\<exists>i \<in> set cs. in_citem c i)) st"
| "rm Dot st = one_char (\<lambda>c. \<not> is_line_terminator c) st"
| "rm (Seq r1 r2) st = concat (map (rm r2) (rm r1 st))"
| "rm (Alt r1 r2) st = rm r1 st @ rm r2 st"
| "rm (Star r) st = star (rm r) (length (fst (snd st))) st"
| "rm (Lazy r) st = lazy (rm r) (length (fst (snd st))) st"
| "rm (Opt r) st = filter (progress st) (rm r st) @ [st]"
| "rm (Grp n r) st = map (set_group n st) (rm r st)"
| "rm Bol st = (case st of (b, s, k) \<Rightarrow> if b = [] then [st] else [])"
| "rm WordB st = (case st of (b, s, k) \<Rightarrow> if at_word b \<noteq> at_word s then [st] else [])"

text \<open>
  \<^verbatim>\<open>line.match(pattern)\<close> for a pattern without the \<^verbatim>\<open>g\<close> flag: the leftmost start at
  which the pattern matches, and there the first successful continuation. The result is
  the capture array without its entry 0, which the source never reads; a group that took
  no part in the match, and an index beyond the pattern's groups, are \<^verbatim>\<open>undefined\<close>
  (\<open>None\<close>).
\<close>

fun search :: "re \<Rightarrow> string \<Rightarrow> string \<Rightarrow> captures option" where
  "search r b [] =
     (case rm r (b, [], Map.empty) of [] \<Rightarrow> None | st # _ \<Rightarrow> Some (snd (snd st)))"
| "search r b (x # xs) =
     (case rm r (b, x # xs, Map.empty) of
        [] \<Rightarrow> search r (x # b) xs
      | st # _ \<Rightarrow> Some (snd (snd st)))"

definition js_match :: "string \<Rightarrow> re \<Rightarrow> captures option" where
  "js_match ln pattern = search pattern [] ln"

text \<open>Truthiness of a value that is a string or \<^verbatim>\<open>undefined\<close>.\<close>

definition truthy :: "string option \<Rightarrow> bool" where
  "truthy v \<longleftrightarrow> (case v of None \<Rightarrow> False | Some s \<Rightarrow> s \<noteq> [])"

section \<open>The data of the tool\<close>

text \<open>
  \<^verbatim>\<open>ExtractToolParams\<close>. An optional field is an \<open>option\<close>; the element type, the
  format and the language are strings, as the \<^verbatim>\<open>switch\<close> statements that read them have a
  \<^verbatim>\<open>default\<close> branch.
\<close>

record ExtractToolParams =
  type :: string
  "file" :: "string option"
  files :: "string list option"
  format :: "string option"
  language :: "string option"
  includeDocstrings :: "bool option"
  includeSignatures :: "bool option"

text \<open>
  \<^verbatim>\<open>ToolErrorType\<close> is declared in \<^verbatim>\<open>tool-error.ts\<close>; the three members that
  \<^verbatim>\<open>extract.ts\<close> names are constructors, any other member is \<open>OtherError\<close>.
\<close>

datatype ToolErrorType = INVALID_TOOL_PARAMS | PATH_NOT_IN_WORKSPACE | UNKNOWN | OtherError string

record ToolError =
  message :: string
  type :: "ToolErrorType option"

text \<open>A \<^verbatim>\<open>PartListUnion\<close> is a string or something else.\<close>

datatype part = Text string | NonText

text \<open>The result of \<^verbatim>\<open>processSingleFileContent\<close>, as far as \<^verbatim>\<open>execute\<close> reads it.\<close>

record ProcessedFileReadResult =
  llmContent :: part
  returnDisplay :: string
  error :: "string option"
  errorType :: "ToolErrorType option"

record ToolResult =
  llmContent :: part
  returnDisplay :: string
  error :: "ToolError option"

record element =
  type :: string
  name :: string
  line :: nat
  content :: string

text \<open>One entry of \<^verbatim>\<open>results\<close>.\<close>

record fileResult =
  filePath :: string
  elements :: "element list"

section \<open>extractComments\<close>

definition dq3 :: string where
  "dq3 = [CHR 0x22, CHR 0x22, CHR 0x22]"

definition sq3 :: string where
  "sq3 = [CHR 0x27, CHR 0x27, CHR 0x27]"

text \<open>
  The three patterns chosen by the \<^verbatim>\<open>switch\<close> on the language: the single-line
  comment, the start of a multi-line comment, and its end. \<open>None\<close> is the
  \<^verbatim>\<open>default\<close> branch, which returns the empty array.
\<close>

definition c_singleLineComment :: re where
  "c_singleLineComment = cat [Lit ''//'', Grp 1 (Star Dot)]"

definition c_multiLineCommentStart :: re where
  "c_multiLineCommentStart = cat [Lit ''/*'', Grp 1 (Star Dot)]"

definition c_multiLineCommentEnd :: re where
  "c_multiLineCommentEnd = cat [Grp 1 (Lazy Dot), Lit ''*/'']"

definition py_singleLineComment :: re where
  "py_singleLineComment = cat [Lit ''#'', Grp 1 (Star Dot)]"

definition py_multiLineCommentStart :: re where
  "py_multiLineCommentStart = cat [Grp 1 (Alt (Lit sq3) (Lit dq3)), Grp 2 (Star Dot)]"

definition py_multiLineCommentEnd :: re where
  "py_multiLineCommentEnd = cat [Grp 1 (Lazy Dot), Grp 2 (Alt (Lit sq3) (Lit dq3))]"

definition commentPatterns :: "string \<Rightarrow> (re \<times> re \<times> re) option" where
  "commentPatterns lang =
     (if lang = ''javascript'' \<or> lang = ''typescript'' then
        Some (c_singleLineComment, c_multiLineCommentStart, c_multiLineCommentEnd)
      else if lang = ''python'' then
        Some (py_singleLineComment, py_multiLineCommentStart, py_multiLineCommentEnd)
      else if lang = ''java'' then
        Some (c_singleLineComment, c_multiLineCommentStart, c_multiLineCommentEnd)
      else if lang = ''go'' then
        Some (c_singleLineComment, c_multiLineCommentStart, c_multiLineCommentEnd)
      else None)"

record cstate =
  inMultiLineComment :: bool
  multiLineContent :: string
  multiLineStartLine :: nat
  comments :: "element list"

definition multi_element :: "nat \<Rightarrow> string \<Rightarrow> element" where
  "multi_element start txt =
     \<lparr>type = ''multi-line-comment'', name = ''Comment at line '' @ show_nat start,
      line = start, content = txt\<rparr>"

definition single_element :: "nat \<Rightarrow> string \<Rightarrow> element" where
  "single_element n txt =
     \<lparr>type = ''single-line-comment'', name = ''Comment at line '' @ show_nat n,
      line = n, content = txt\<rparr>"

text \<open>
  The part of the loop body that runs inside an open block: the line is appended and the
  block is emitted when the end pattern matches.
\<close>

definition in_block_step :: "re \<Rightarrow> cstate \<Rightarrow> string \<Rightarrow> cstate" where
  "in_block_step multiLineCommentEnd s ln =
     (let s1 = s\<lparr>multiLineContent := multiLineContent s @ CHR 0x0A # ln\<rparr> in
      case js_match ln multiLineCommentEnd of
        None \<Rightarrow> s1
      | Some _ \<Rightarrow>
          s1\<lparr>inMultiLineComment := False,
             comments := comments s1 @
               [multi_element (multiLineStartLine s1) (multiLineContent s1)],
             multiLineContent := []\<rparr>)"

text \<open>
  The check for a single-line comment. \<^verbatim>\<open>singleLineMatch[1].trim()\<close> throws a TypeError
  when group 1 is \<^verbatim>\<open>undefined\<close>: that is the \<open>Inl\<close> result.
\<close>

definition single_step :: "re \<Rightarrow> cstate \<Rightarrow> string \<Rightarrow> nat \<Rightarrow> string + cstate" where
  "single_step singleLineComment s ln lineNumber =
     (case js_match ln singleLineComment of
        None \<Rightarrow> Inr s
      | Some m \<Rightarrow>
          (case m 1 of
             None \<Rightarrow> Inl ''Cannot read properties of undefined (reading 'trim')''
           | Some g \<Rightarrow> Inr (s\<lparr>comments := comments s @ [single_element lineNumber (trim g)]\<rparr>)))"

text \<open>The check for the start of a multi-line comment, and for its end on the same line.\<close>

definition start_step :: "re \<Rightarrow> re \<Rightarrow> cstate \<Rightarrow> string \<Rightarrow> nat \<Rightarrow> cstate" where
  "start_step multiLineCommentStart multiLineCommentEnd s ln lineNumber =
     (case js_match ln multiLineCommentStart of
        None \<Rightarrow> s
      | Some m \<Rightarrow>
          (let s1 = s\<lparr>inMultiLineComment := True, multiLineStartLine := lineNumber,
                      multiLineContent := (if truthy (m 1) then the (m 1) else [])\<rparr> in
           case js_match ln multiLineCommentEnd of
             None \<Rightarrow> s1
           | Some _ \<Rightarrow>
               s1\<lparr>inMultiLineComment := False,
                  comments := comments s1 @
                    [multi_element (multiLineStartLine s1) (multiLineContent s1)],
                  multiLineContent := []\<rparr>))"

definition comment_step :: "re \<times> re \<times> re \<Rightarrow> cstate \<Rightarrow> string \<Rightarrow> nat \<Rightarrow> string + cstate" where
  "comment_step pats s ln lineNumber =
     (case pats of (singleLineComment, multiLineCommentStart, multiLineCommentEnd) \<Rightarrow>
        if inMultiLineComment s then Inr (in_block_step multiLineCommentEnd s ln)
        else
          (case single_step singleLineComment s ln lineNumber of
             Inl e \<Rightarrow> Inl e
           | Inr s1 \<Rightarrow>
               Inr (start_step multiLineCommentStart multiLineCommentEnd s1 ln lineNumber)))"

text \<open>The \<^verbatim>\<open>for\<close> loop over the lines; \<open>i\<close> is the index of the first line of the list.\<close>

fun comments_loop :: "re \<times> re \<times> re \<Rightarrow> cstate \<Rightarrow> string list \<Rightarrow> nat \<Rightarrow> string + cstate" where
  "comments_loop pats s [] i = Inr s"
| "comments_loop pats s (ln # lns) i =
     (case comment_step pats s ln (i + 1) of
        Inl e \<Rightarrow> Inl e
      | Inr s' \<Rightarrow> comments_loop pats s' lns (i + 1))"

definition init_cstate :: cstate where
  "init_cstate =
     \<lparr>inMultiLineComment = False, multiLineContent = [], multiLineStartLine = 0,
      comments = []\<rparr>"

definition extractComments :: "string \<Rightarrow> string \<Rightarrow> string + element list" where
  "extractComments txt lang =
     (case commentPatterns lang of
        None \<Rightarrow> Inr []
      | Some pats \<Rightarrow>
          (case comments_loop pats init_cstate (split_nl txt) 0 of
             Inl e \<Rightarrow> Inl e
           | Inr s \<Rightarrow> Inr (comments s)))"

section \<open>The pattern tables\<close>

text \<open>
  Each table is the array that the \<^verbatim>\<open>switch\<close> on the language assigns, in the order of
  the source; \<open>None\<close> is the \<^verbatim>\<open>default\<close> branch, which returns the empty array. The
  definitions below name pieces that recur in the regular expression literals.
\<close>

definition ws :: re where
  "ws = Set [WhiteSpace]"

definition word :: re where
  "word = Set [WordChar]"

definition quote :: re where
  "quote = Set [Ch (CHR 0x27), Ch (CHR 0x22)]"

text \<open>\<^verbatim>\<open>[a-zA-Z_$][a-zA-Z0-9_$]*\<close>\<close>

definition js_ident :: re where
  "js_ident =
     Seq (Set [Rng (CHR ''a'') (CHR ''z''), Rng (CHR ''A'') (CHR ''Z''), Ch (CHR ''_''), Ch (CHR ''$'')])
       (Star (Set [Rng (CHR ''a'') (CHR ''z''), Rng (CHR ''A'') (CHR ''Z''),
                   Rng (CHR ''0'') (CHR ''9''), Ch (CHR ''_''), Ch (CHR ''$'')]))"

text \<open>\<^verbatim>\<open>[a-zA-Z_][a-zA-Z0-9_]*\<close>\<close>

definition py_ident :: re where
  "py_ident =
     Seq (Set [Rng (CHR ''a'') (CHR ''z''), Rng (CHR ''A'') (CHR ''Z''), Ch (CHR ''_'')])
       (Star (Set [Rng (CHR ''a'') (CHR ''z''), Rng (CHR ''A'') (CHR ''Z''),
                   Rng (CHR ''0'') (CHR ''9''), Ch (CHR ''_'')]))"

text \<open>\<^verbatim>\<open>[a-zA-Z_][a-zA-Z0-9_.]*\<close>\<close>

definition py_dotted :: re where
  "py_dotted =
     Seq (Set [Rng (CHR ''a'') (CHR ''z''), Rng (CHR ''A'') (CHR ''Z''), Ch (CHR ''_'')])
       (Star (Set [Rng (CHR ''a'') (CHR ''z''), Rng (CHR ''A'') (CHR ''Z''),
                   Rng (CHR ''0'') (CHR ''9''), Ch (CHR ''_''), Ch (CHR ''.'')]))"

text \<open>\<^verbatim>\<open>\([^)]*\)\<close>\<close>

definition arglist :: re where
  "arglist = cat [Lit ''('', Star (NotSet [Ch (CHR '')'')]), Lit '')'']"

text \<open>\<^verbatim>\<open>\{[^}]+\}\<close>\<close>

definition braced :: re where
  "braced = cat [Lit ''{'', Plus (NotSet [Ch (CHR ''}'')]), Lit ''}'']"

definition functionPatterns :: "string \<Rightarrow> re list option" where
  "functionPatterns lang =
     (if lang = ''javascript'' \<or> lang = ''typescript'' then
        Some [cat [Lit ''function'', Plus ws, Grp 1 js_ident, Star ws, arglist, Star ws, Lit ''{''],
              cat [Grp 1 js_ident, Star ws, Lit ''='', Star ws, Lit ''function'', Star ws,
                   arglist, Star ws, Lit ''{''],
              cat [Grp 1 js_ident, Star ws, Lit ''='', Star ws, arglist, Star ws, Lit ''=>''],
              cat [Grp 1 js_ident, Star ws, arglist, Star ws, Lit ''{''],
              cat [WordB, Grp 1 js_ident, Star ws, Lit '':'', Star ws, Lit ''function'', Star ws,
                   arglist, Star ws, Lit ''{'']]
      else if lang = ''python'' then
        Some [cat [Lit ''def'', Plus ws, Grp 1 py_ident, Star ws, arglist, Star ws, Lit '':'']]
      else if lang = ''java'' then
        Some [cat [Opt (Grp 1 (Alt (Lit ''public'') (Alt (Lit ''private'') (Lit ''protected'')))),
                   Star ws, Opt (Grp 2 (Lit ''static'')), Star ws, Plus word, Plus ws,
                   Grp 3 js_ident, Star ws, arglist, Star ws, Lit ''{'']]
      else if lang = ''go'' then
        Some [cat [Lit ''func'', Plus ws, Grp 1 py_ident, Star ws, arglist, Star ws, Star word]]
      else None)"

definition classPatterns :: "string \<Rightarrow> re list option" where
  "classPatterns lang =
     (if lang = ''javascript'' \<or> lang = ''typescript'' then
        Some [cat [Lit ''class'', Plus ws, Grp 1 js_ident]]
      else if lang = ''python'' then
        Some [cat [Lit ''class'', Plus ws, Grp 1 py_ident, Star ws, Opt (Lit ''(''), Star Dot,
                   Opt (Lit '')''), Star ws, Lit '':'']]
      else if lang = ''java'' then
        Some [cat [Opt (Grp 1 (Alt (Lit ''public'') (Lit ''private''))), Star ws, Lit ''class'',
                   Plus ws, Grp 2 js_ident]]
      else if lang = ''go'' then
        Some [cat [Lit ''type'', Plus ws, Grp 1 py_ident, Plus ws, Lit ''struct'', Star ws,
                   Lit ''{'']]
      else None)"

text \<open>
  In \<^verbatim>\<open>/export\s+{.*}/\<close> the braces stand for themselves. The second pattern of go carries
  the flag \<^verbatim>\<open>s\<close>, which changes only what \<^verbatim>\<open>.\<close> matches; the pattern has no \<^verbatim>\<open>.\<close>.
\<close>

definition importPatterns :: "string \<Rightarrow> re list option" where
  "importPatterns lang =
     (if lang = ''javascript'' \<or> lang = ''typescript'' then
        Some [cat [Lit ''import'', Plus ws, Star Dot, Lit ''from'', Plus ws, quote,
                   Grp 1 (Star Dot), quote],
              cat [Lit ''import'', Plus ws, quote, Grp 1 (Star Dot), quote],
              cat [Lit ''export'', Plus ws, Opt (Grp 1 (cat [Lit ''default'', Plus ws])),
                   Grp 2 (Alt (Lit ''class'') (Alt (Lit ''function'') (Alt (Lit ''const'')
                            (Alt (Lit ''let'') (Lit ''var''))))),
                   Plus ws, Grp 3 js_ident],
              cat [Lit ''export'', Plus ws, Lit ''{'', Star Dot, Lit ''}''],
              cat [Lit ''require('', quote, Grp 1 (Star Dot), quote, Lit '')'']]
      else if lang = ''python'' then
        Some [cat [Lit ''import'', Plus ws, Grp 1 py_dotted],
              cat [Lit ''from'', Plus ws, Grp 1 py_dotted, Plus ws, Lit ''import'', Plus ws,
                   Star Dot]]
      else if lang = ''java'' then
        Some [cat [Lit ''import'', Plus ws,
                   Grp 1 (Plus (Set [Rng (CHR ''a'') (CHR ''z''), Rng (CHR ''A'') (CHR ''Z''),
                                     Rng (CHR ''0'') (CHR ''9''), Ch (CHR ''_''), Ch (CHR ''.''),
                                     Ch (CHR ''*'')]))]]
      else if lang = ''go'' then
        Some [cat [Lit ''import'', Plus ws, quote, Grp 1 (Star Dot), quote],
              cat [Lit ''import'', Plus ws, arglist]]
      else None)"

definition variablePatterns :: "string \<Rightarrow> re list option" where
  "variablePatterns lang =
     (if lang = ''javascript'' \<or> lang = ''typescript'' then
        Some [cat [Grp 1 (Alt (Lit ''const'') (Alt (Lit ''let'') (Lit ''var''))), Plus ws,
                   Grp 2 js_ident]]
      else if lang = ''python'' then
        Some [cat [Bol, Grp 1 py_ident, Star ws, Lit ''='']]
      else if lang = ''java'' then
        Some [cat [Opt (Grp 1 (Lit ''final'')), Star ws,
                   Opt (Grp 2 (Alt (Lit ''public'') (Alt (Lit ''private'') (Lit ''protected'')))),
                   Star ws, Plus word, Plus ws, Grp 3 js_ident, Star ws,
                   Grp 4 (Alt (Lit ''='') (Lit '';''))]]
      else if lang = ''go'' then
        Some [cat [Grp 1 (Alt (Lit ''var'') (Lit ''const'')), Plus ws, Grp 2 py_ident],
              cat [Grp 1 py_ident, Star ws, Lit '':='']]
      else None)"

definition typePatterns :: "string \<Rightarrow> re list option" where
  "typePatterns lang =
     (if lang = ''javascript'' then
        Some [cat [Lit ''@typedef'', Plus ws, braced, Plus ws, Grp 1 js_ident],
              cat [Lit ''@param'', Plus ws, braced, Plus ws, Grp 1 js_ident]]
      else if lang = ''typescript'' then
        Some [cat [Lit ''interface'', Plus ws, Grp 1 js_ident],
              cat [Lit ''type'', Plus ws, Grp 1 js_ident, Star ws, Lit ''=''],
              cat [Lit ''enum'', Plus ws, Grp 1 js_ident]]
      else if lang = ''python'' then
        Some [cat [Lit ''class'', Plus ws, Grp 1 py_ident, Star ws, Opt (Lit ''(''), Star Dot,
                   Opt (Lit '')''), Star ws, Lit '':''],
              cat [Lit ''from'', Plus ws, Lit ''typing'', Plus ws, Lit ''import'', Plus ws,
                   Star Dot],
              cat [Lit ''import'', Plus ws, Lit ''typing'']]
      else if lang = ''java'' then
        Some [cat [Lit ''interface'', Plus ws, Grp 1 js_ident],
              cat [Lit ''enum'', Plus ws, Grp 1 js_ident]]
      else if lang = ''go'' then
        Some [cat [Lit ''type'', Plus ws, Grp 1 py_ident, Plus ws,
                   Grp 2 (Alt (Lit ''interface'') (Lit ''struct''))]]
      else None)"

section \<open>The five pattern-table extractors\<close>

text \<open>
  The inner loop \<^verbatim>\<open>for (const pattern of patterns)\<close>: the patterns are tried in the
  order of the table, and the \<^verbatim>\<open>break\<close> leaves the loop at the first one that matches.
\<close>

fun first_match :: "re list \<Rightarrow> string \<Rightarrow> captures option" where
  "first_match [] ln = None"
| "first_match (pattern # patterns) ln =
     (case js_match ln pattern of
        None \<Rightarrow> first_match patterns ln
      | Some m \<Rightarrow> Some m)"

text \<open>
  The outer loop over the lines: \<open>body\<close> gives the elements that one iteration pushes,
  \<open>i\<close> is the index of the first line of the list.
\<close>

fun scan_lines :: "(string \<Rightarrow> nat \<Rightarrow> element list) \<Rightarrow> element list \<Rightarrow> string list \<Rightarrow> nat \<Rightarrow> element list" where
  "scan_lines body acc [] i = acc"
| "scan_lines body acc (ln # lns) i = scan_lines body (acc @ body ln (i + 1)) lns (i + 1)"

text \<open>\<^verbatim>\<open>a || b\<close> on values that are strings or \<^verbatim>\<open>undefined\<close>.\<close>

definition js_or :: "string option \<Rightarrow> string option \<Rightarrow> string option" where
  "js_or a b = (if truthy a then a else b)"

text \<open>The push guarded by \<^verbatim>\<open>if (name)\<close>.\<close>

definition push_named :: "string \<Rightarrow> string option \<Rightarrow> string \<Rightarrow> nat \<Rightarrow> element list" where
  "push_named kind nm ln lineNumber =
     (if truthy nm then [\<lparr>type = kind, name = the nm, line = lineNumber, content = trim ln\<rparr>]
      else [])"

definition functionName :: "string \<Rightarrow> captures \<Rightarrow> string option" where
  "functionName lang m =
     (if lang = ''javascript'' \<or> lang = ''typescript'' then
        (if truthy (m 1) \<and> m 1 \<noteq> Some ''function'' then m 1
         else if truthy (m 2) then m 2
         else if truthy (m 3) then m 3
         else Some [])
      else if lang = ''python'' \<or> lang = ''go'' then m 1
      else if lang = ''java'' then m 3
      else Some [])"

definition function_line :: "string \<Rightarrow> re list \<Rightarrow> string \<Rightarrow> nat \<Rightarrow> element list" where
  "function_line lang patterns ln lineNumber =
     (case first_match patterns ln of
        None \<Rightarrow> []
      | Some m \<Rightarrow> push_named ''function'' (functionName lang m) ln lineNumber)"

definition extractFunctions :: "string \<Rightarrow> string \<Rightarrow> element list" where
  "extractFunctions txt lang =
     (case functionPatterns lang of
        None \<Rightarrow> []
      | Some patterns \<Rightarrow> scan_lines (function_line lang patterns) [] (split_nl txt) 0)"

definition className :: "string \<Rightarrow> captures \<Rightarrow> string option" where
  "className lang m =
     (if lang = ''javascript'' \<or> lang = ''typescript'' \<or> lang = ''python'' \<or>
         lang = ''java'' then js_or (m 1) (m 2)
      else if lang = ''go'' then m 1
      else Some [])"

definition class_line :: "string \<Rightarrow> re list \<Rightarrow> string \<Rightarrow> nat \<Rightarrow> element list" where
  "class_line lang patterns ln lineNumber =
     (case first_match patterns ln of
        None \<Rightarrow> []
      | Some m \<Rightarrow> push_named ''class'' (className lang m) ln lineNumber)"

definition extractClasses :: "string \<Rightarrow> string \<Rightarrow> element list" where
  "extractClasses txt lang =
     (case classPatterns lang of
        None \<Rightarrow> []
      | Some patterns \<Rightarrow> scan_lines (class_line lang patterns) [] (split_nl txt) 0)"

text \<open>
  The import name: group 1, else group 3, else the whole trimmed line; the element is
  pushed without a guard.
\<close>

definition importName :: "captures \<Rightarrow> string \<Rightarrow> string" where
  "importName m ln =
     (let n = (if truthy (m 1) then the (m 1) else if truthy (m 3) then the (m 3) else [])
      in if n = [] then trim ln else n)"

definition import_line :: "re list \<Rightarrow> string \<Rightarrow> nat \<Rightarrow> element list" where
  "import_line patterns ln lineNumber =
     (case first_match patterns ln of
        None \<Rightarrow> []
      | Some m \<Rightarrow>
          [\<lparr>type = ''import'', name = importName m ln, line = lineNumber, content = trim ln\<rparr>])"

definition extractImports :: "string \<Rightarrow> string \<Rightarrow> element list" where
  "extractImports txt lang =
     (case importPatterns lang of
        None \<Rightarrow> []
      | Some patterns \<Rightarrow> scan_lines (import_line patterns) [] (split_nl txt) 0)"

definition variableName :: "string \<Rightarrow> captures \<Rightarrow> string option" where
  "variableName lang m =
     (if lang = ''javascript'' \<or> lang = ''typescript'' then m 2
      else if lang = ''python'' \<or> lang = ''go'' then js_or (m 2) (m 1)
      else if lang = ''java'' then m 3
      else Some [])"

text \<open>The lines that the variable extractor skips before it tries any pattern.\<close>

definition skipped_line :: "string \<Rightarrow> bool" where
  "skipped_line ln \<longleftrightarrow>
     prefix ''import'' (trim ln) \<or> prefix ''function'' (trim ln) \<or>
     prefix ''class'' (trim ln) \<or> prefix ''export'' (trim ln)"

definition variable_line :: "string \<Rightarrow> re list \<Rightarrow> string \<Rightarrow> nat \<Rightarrow> element list" where
  "variable_line lang patterns ln lineNumber =
     (if skipped_line ln then []
      else
        (case first_match patterns ln of
           None \<Rightarrow> []
         | Some m \<Rightarrow> push_named ''variable'' (variableName lang m) ln lineNumber))"

definition extractVariables :: "string \<Rightarrow> string \<Rightarrow> element list" where
  "extractVariables txt lang =
     (case variablePatterns lang of
        None \<Rightarrow> []
      | Some patterns \<Rightarrow> scan_lines (variable_line lang patterns) [] (split_nl txt) 0)"

definition typeName :: "captures \<Rightarrow> string \<Rightarrow> string option" where
  "typeName m ln = (if truthy (m 1) then m 1 else Some (trim ln))"

definition type_line :: "re list \<Rightarrow> string \<Rightarrow> nat \<Rightarrow> element list" where
  "type_line patterns ln lineNumber =
     (case first_match patterns ln of
        None \<Rightarrow> []
      | Some m \<Rightarrow> push_named ''type'' (typeName m ln) ln lineNumber)"

definition extractTypes :: "string \<Rightarrow> string \<Rightarrow> element list" where
  "extractTypes txt lang =
     (case typePatterns lang of
        None \<Rightarrow> []
      | Some patterns \<Rightarrow> scan_lines (type_line patterns) [] (split_nl txt) 0)"

section \<open>detectLanguage\<close>

text \<open>
  \<^verbatim>\<open>toLowerCase\<close> on code units below 256: the letters A to Z and the upper-case letters
  of Latin-1 move up by 32.
\<close>

definition lower_char :: "char \<Rightarrow> char" where
  "lower_char c =
     (if in_range (CHR ''A'') (CHR ''Z'') c \<or> (in_range (CHR 0xC0) (CHR 0xDE) c \<and> c \<noteq> CHR 0xD7)
      then char_of (of_char c + (32 :: nat)) else c)"

definition toLowerCase :: "string \<Rightarrow> string" where
  "toLowerCase s = map lower_char s"

text \<open>
  \<^verbatim>\<open>path.extname\<close> belongs to the Node.js library, so it is the parameter \<open>ext_of\<close>.
  \<open>None\<close> is \<^verbatim>\<open>null\<close>.
\<close>

definition detectLanguage :: "(string \<Rightarrow> string) \<Rightarrow> string \<Rightarrow> string option" where
  "detectLanguage ext_of fp =
     (let ext = toLowerCase (ext_of fp) in
      if ext = ''.js'' \<or> ext = ''.jsx'' then Some ''javascript''
      else if ext = ''.ts'' \<or> ext = ''.tsx'' then Some ''typescript''
      else if ext = ''.py'' then Some ''python''
      else if ext = ''.java'' then Some ''java''
      else if ext = ''.go'' then Some ''go''
      else None)"

text \<open>
  A model of \<^verbatim>\<open>path.extname\<close> for POSIX paths, after the Node.js documentation, used
  where a concrete path is evaluated: the extension runs from the last dot of the last
  path segment to its end, and is empty when the segment has no dot, starts at its only
  dot, or is \<^verbatim>\<open>..\<close>.
\<close>

definition last_segment :: "string \<Rightarrow> string" where
  "last_segment p =
     rev (takeWhile (\<lambda>c. c \<noteq> CHR ''/'') (dropWhile (\<lambda>c. c = CHR ''/'') (rev p)))"

definition posix_extname :: "string \<Rightarrow> string" where
  "posix_extname p =
     (let base = last_segment p;
          ext_rev = takeWhile (\<lambda>c. c \<noteq> CHR ''.'') (rev base);
          stem = drop (length ext_rev + 1) (rev base)
      in if CHR ''.'' \<notin> set base \<or> stem = [] \<or> base = ''..'' then []
         else CHR ''.'' # rev ext_rev)"

section \<open>The output formats\<close>

text \<open>
  \<^verbatim>\<open>makeRelative(result.filePath, this.config.getTargetDir())\<close> is the parameter \<open>rel\<close> of
  the three formatters.
\<close>

fun list_elements :: "string \<Rightarrow> element list \<Rightarrow> string" where
  "list_elements output [] = output"
| "list_elements output (e # es) =
     list_elements
       (let output1 = output @ type e @ '': '' @ name e @ '' (line '' @ show_nat (line e) @ '')'' @
                      [CHR 0x0A]
        in if content e \<noteq> [] then output1 @ ''  '' @ content e @ [CHR 0x0A] else output1)
       es"

fun list_results :: "(string \<Rightarrow> string) \<Rightarrow> string \<Rightarrow> fileResult list \<Rightarrow> string" where
  "list_results rel output [] = output"
| "list_results rel output (r # rs) =
     list_results rel
       (let output1 = output @ ''--- '' @ rel (filePath r) @ '' ---'' @ [CHR 0x0A];
            output2 = (if length (elements r) = 0 then output1 @ ''No elements found'' @ [CHR 0x0A]
                       else list_elements output1 (elements r))
        in output2 @ [CHR 0x0A])
       rs"

definition formatAsList :: "(string \<Rightarrow> string) \<Rightarrow> fileResult list \<Rightarrow> string" where
  "formatAsList rel results = trim (list_results rel [] results)"

text \<open>
  \<^verbatim>\<open>elementsByType\<close> is an object whose keys are element types; its entries are listed
  in the order in which the keys were added.
\<close>

fun add_by_type :: "(string \<times> element list) list \<Rightarrow> element \<Rightarrow> (string \<times> element list) list" where
  "add_by_type [] e = [(type e, [e])]"
| "add_by_type ((k, es) # rest) e =
     (if k = type e then (k, es @ [e]) # rest else (k, es) # add_by_type rest e)"

fun tree_entries :: "string \<Rightarrow> element list \<Rightarrow> string" where
  "tree_entries output [] = output"
| "tree_entries output (e # es) =
     tree_entries (output @ ''    '' @ name e @ '' (line '' @ show_nat (line e) @ '')'' @ [CHR 0x0A]) es"

fun tree_groups :: "string \<Rightarrow> (string \<times> element list) list \<Rightarrow> string" where
  "tree_groups output [] = output"
| "tree_groups output ((k, es) # rest) =
     tree_groups
       (tree_entries (output @ ''  '' @ k @ '' ('' @ show_nat (length es) @ '')'' @ [CHR 0x0A]) es)
       rest"

fun tree_results :: "(string \<Rightarrow> string) \<Rightarrow> string \<Rightarrow> fileResult list \<Rightarrow> string" where
  "tree_results rel output [] = output"
| "tree_results rel output (r # rs) =
     tree_results rel
       (let output1 = output @ rel (filePath r) @ [CHR 0x0A];
            output2 = (if length (elements r) = 0
                       then output1 @ ''  (No elements found)'' @ [CHR 0x0A]
                       else tree_groups output1 (foldl add_by_type [] (elements r)))
        in output2 @ [CHR 0x0A])
       rs"

definition formatAsTree :: "(string \<Rightarrow> string) \<Rightarrow> fileResult list \<Rightarrow> string" where
  "formatAsTree rel results = trim (tree_results rel [] results)"

text \<open>The loop of \<^verbatim>\<open>formatAsSummary\<close> carries the running total and the output.\<close>

fun summary_loop :: "(string \<Rightarrow> string) \<Rightarrow> nat \<times> string \<Rightarrow> fileResult list \<Rightarrow> nat \<times> string" where
  "summary_loop rel (totalElements, output) [] = (totalElements, output)"
| "summary_loop rel (totalElements, output) (r # rs) =
     summary_loop rel
       (totalElements + length (elements r),
        output @ rel (filePath r) @ '': '' @ show_nat (length (elements r)) @ '' elements'' @
          [CHR 0x0A])
       rs"

definition formatAsSummary :: "(string \<Rightarrow> string) \<Rightarrow> fileResult list \<Rightarrow> string" where
  "formatAsSummary rel results =
     (case summary_loop rel (0, []) results of
        (totalElements, output) \<Rightarrow>
          trim (''Total elements extracted: '' @ show_nat totalElements @ [CHR 0x0A, CHR 0x0A] @
                output))"

section \<open>The tool invocation\<close>

text \<open>
  What \<^verbatim>\<open>execute\<close> gets from outside \<^verbatim>\<open>extract.ts\<close>: the target directory of the
  configuration, \<^verbatim>\<open>path.resolve\<close>, the workspace check, the file reader (which may
  reject with a message: \<open>Inl\<close>), \<^verbatim>\<open>makeRelative\<close>, \<^verbatim>\<open>path.extname\<close> and
  \<^verbatim>\<open>JSON.stringify(results, null, 2)\<close>.
\<close>

record env =
  targetDir :: string
  resolve :: "string \<Rightarrow> string \<Rightarrow> string"
  isPathWithinWorkspace :: "string \<Rightarrow> bool"
  processSingleFileContent :: "string \<Rightarrow> string \<Rightarrow> string + ProcessedFileReadResult"
  makeRelative :: "string \<Rightarrow> string \<Rightarrow> string"
  extname :: "string \<Rightarrow> string"
  stringify :: "fileResult list \<Rightarrow> string"

text \<open>\<^verbatim>\<open>this.params.files || (this.params.file ? [this.params.file] : [])\<close>: an array is
  truthy even when it is empty.\<close>

definition requested_files :: "ExtractToolParams \<Rightarrow> string list" where
  "requested_files p =
     (case files p of
        Some fs \<Rightarrow> fs
      | None \<Rightarrow> if truthy (file p) then [the (file p)] else [])"

definition failure :: "string \<Rightarrow> string \<Rightarrow> ToolErrorType \<Rightarrow> ToolResult" where
  "failure msg display ty =
     \<lparr>llmContent = Text msg, returnDisplay = display,
      error = Some \<lparr>message = msg, type = Some ty\<rparr>\<rparr>"

fun resolve_files :: "env \<Rightarrow> string list \<Rightarrow> string list \<Rightarrow> ToolResult + string list" where
  "resolve_files e resolvedFiles [] = Inr resolvedFiles"
| "resolve_files e resolvedFiles (f # fs) =
     (let absolutePath = resolve e (targetDir e) f in
      if \<not> isPathWithinWorkspace e absolutePath then
        Inl (failure (''File path '' @ [CHR 0x22] @ f @ [CHR 0x22] @ '' is not within workspace'')
               ''File not in workspace'' PATH_NOT_IN_WORKSPACE)
      else resolve_files e (resolvedFiles @ [absolutePath]) fs)"

text \<open>The \<^verbatim>\<open>switch\<close> on the element type; \<open>Inl\<close> is an exception thrown by the extractor.\<close>

definition extract_elements :: "string \<Rightarrow> string \<Rightarrow> string \<Rightarrow> string + element list" where
  "extract_elements kind txt lang =
     (if kind = ''comments'' then extractComments txt lang
      else if kind = ''functions'' then Inr (extractFunctions txt lang)
      else if kind = ''classes'' then Inr (extractClasses txt lang)
      else if kind = ''imports'' then Inr (extractImports txt lang)
      else if kind = ''variables'' then Inr (extractVariables txt lang)
      else if kind = ''types'' then Inr (extractTypes txt lang)
      else Inr [])"

text \<open>\<^verbatim>\<open>this.params.language || detectLanguage(filePath) || 'javascript'\<close>\<close>

definition chosen_language :: "env \<Rightarrow> ExtractToolParams \<Rightarrow> string \<Rightarrow> string" where
  "chosen_language e p fp =
     (if truthy (language p) then the (language p)
      else if truthy (detectLanguage (extname e) fp) then the (detectLanguage (extname e) fp)
      else ''javascript'')"

text \<open>
  How the loop over the resolved files ends: an exception reaches the \<^verbatim>\<open>catch\<close>, a
  \<^verbatim>\<open>return\<close> leaves \<^verbatim>\<open>execute\<close>, or the loop runs to its end.
\<close>

datatype 'a outcome = Thrown string | Return ToolResult | Normal 'a

text \<open>
  The loop over the resolved files. The second component of the state lists the paths
  handed to the file reader so far.
\<close>

fun process_files :: "env \<Rightarrow> ExtractToolParams \<Rightarrow> fileResult list \<times> string list \<Rightarrow> string list \<Rightarrow> fileResult list outcome \<times> string list" where
  "process_files e p (results, reads) [] = (Normal results, reads)"
| "process_files e p (results, reads) (fp # fps) =
     (case processSingleFileContent e fp (targetDir e) of
        Inl msg \<Rightarrow> (Thrown msg, reads @ [fp])
      | Inr result \<Rightarrow>
          if truthy (ProcessedFileReadResult.error result) then
            (Return \<lparr>llmContent = ProcessedFileReadResult.llmContent result,
                     returnDisplay =
                       (if ProcessedFileReadResult.returnDisplay result \<noteq> []
                        then ProcessedFileReadResult.returnDisplay result
                        else ''Error reading file''),
                     error = Some \<lparr>message = the (ProcessedFileReadResult.error result),
                                   type = errorType result\<rparr>\<rparr>,
             reads @ [fp])
          else
            (let txt = (case ProcessedFileReadResult.llmContent result of
                          Text t \<Rightarrow> t | NonText \<Rightarrow> [])
             in case extract_elements (ExtractToolParams.type p) txt (chosen_language e p fp) of
                  Inl msg \<Rightarrow> (Thrown msg, reads @ [fp])
                | Inr els \<Rightarrow>
                    process_files e p
                      (results @ [\<lparr>filePath = fp, elements = els\<rparr>], reads @ [fp]) fps))"

definition format_output :: "env \<Rightarrow> ExtractToolParams \<Rightarrow> fileResult list \<Rightarrow> string" where
  "format_output e p results =
     (let fmt = (if truthy (format p) then the (format p) else ''list'');
          rel = (\<lambda>fp. makeRelative e fp (targetDir e))
      in if fmt = ''json'' then stringify e results
         else if fmt = ''tree'' then formatAsTree rel results
         else if fmt = ''summary'' then formatAsSummary rel results
         else formatAsList rel results)"

text \<open>
  \<^verbatim>\<open>execute\<close>: the result object, and the paths handed to the file reader. An exception
  inside the \<^verbatim>\<open>try\<close> block becomes the result of the \<^verbatim>\<open>catch\<close> block.
\<close>

definition execute :: "env \<Rightarrow> ExtractToolParams \<Rightarrow> ToolResult \<times> string list" where
  "execute e p =
     (let fs = requested_files p in
      if length fs = 0 then
        (failure ''No files specified for extraction'' ''No files specified'' INVALID_TOOL_PARAMS,
         [])
      else
        (case resolve_files e [] fs of
           Inl r \<Rightarrow> (r, [])
         | Inr resolvedFiles \<Rightarrow>
             (case process_files e p ([], []) resolvedFiles of
                (Thrown msg, reads) \<Rightarrow>
                  (failure (''Error during extraction: '' @ msg) ''Error during extraction'' UNKNOWN,
                   reads)
              | (Return r, reads) \<Rightarrow> (r, reads)
              | (Normal results, reads) \<Rightarrow>
                  (\<lparr>llmContent = Text (format_output e p results),
                    returnDisplay = ''Extracted '' @ ExtractToolParams.type p @ '' from '' @
                      show_nat (length resolvedFiles) @ '' file(s)'',
                    error = None\<rparr>,
                   reads))))"

text \<open>\<^verbatim>\<open>ExtractTool.validateToolParamValues\<close>: \<open>None\<close> is \<^verbatim>\<open>null\<close>.\<close>

definition validateToolParamValues :: "ExtractToolParams \<Rightarrow> string option" where
  "validateToolParamValues p =
     (if \<not> truthy (file p) \<and> (files p = None \<or> length (the (files p)) = 0)
      then Some ''Either 'file' or 'files' parameter must be specified''
      else None)"

section \<open>Sample inputs\<close>

text \<open>
  A small environment for concrete runs: every path is inside the workspace and every
  file holds the one line \<^verbatim>\<open>// comment\<close>.
\<close>

definition sample_read :: "string \<Rightarrow> string \<Rightarrow> string + ProcessedFileReadResult" where
  "sample_read fp dir =
     Inr \<lparr>ProcessedFileReadResult.llmContent = Text ''// comment'',
          ProcessedFileReadResult.returnDisplay = [],
          ProcessedFileReadResult.error = None, errorType = None\<rparr>"

definition sample_env :: env where
  "sample_env =
     \<lparr>targetDir = ''/w'', resolve = (\<lambda>dir f. dir @ ''/'' @ f),
      isPathWithinWorkspace = (\<lambda>fp. True), processSingleFileContent = sample_read,
      makeRelative = (\<lambda>fp dir. drop (length dir + 1) fp), extname = posix_extname,
      stringify = (\<lambda>rs. [])\<rparr>"

definition sample_params :: ExtractToolParams where
  "sample_params =
     \<lparr>ExtractToolParams.type = ''comments'', file = None, files = None, format = None,
      language = None, includeDocstrings = None, includeSignatures = None\<rparr>"

section \<open>Auxiliary definitions for the properties\<close>

text \<open>The line that \<^verbatim>\<open>formatAsSummary\<close> prints for one file.\<close>

definition summary_line :: "(string \<Rightarrow> string) \<Rightarrow> fileResult \<Rightarrow> string" where
  "summary_line rel r =
     rel (filePath r) @ '': '' @ show_nat (length (elements r)) @ '' elements'' @ [CHR 0x0A]"

text \<open>
  \<open>consumes st st'\<close>: the matcher went from \<open>st\<close> to \<open>st'\<close> by reading a piece of the
  text after the position; \<open>eats P st st'\<close>: and that piece has a character in \<open>P\<close>.
\<close>

definition consumes :: "mstate \<Rightarrow> mstate \<Rightarrow> bool" where
  "consumes st st' \<longleftrightarrow> (\<exists>w. fst (snd st) = w @ fst (snd st') \<and> fst st' = rev w @ fst st)"

definition eats :: "(char \<Rightarrow> bool) \<Rightarrow> mstate \<Rightarrow> mstate \<Rightarrow> bool" where
  "eats P st st' \<longleftrightarrow>
     (\<exists>w. fst (snd st) = w @ fst (snd st') \<and> fst st' = rev w @ fst st \<and> (\<exists>c \<in> set w. P c))"

text \<open>
  A syntactic check that every match of a pattern reads a character in \<open>P\<close>.
\<close>

fun only_in :: "(char \<Rightarrow> bool) \<Rightarrow> citem \<Rightarrow> bool" where
  "only_in P (Ch c) = P c"
| "only_in P (Rng lo hi) = False"
| "only_in P WhiteSpace = False"
| "only_in P WordChar = False"

fun must :: "(char \<Rightarrow> bool) \<Rightarrow> re \<Rightarrow> bool" where
  "must P (Lit w) = (\<exists>c \<in> set w. P c)"
| "must P (Set cs) = (\<forall>i \<in> set cs. only_in P i)"
| "must P (Seq r1 r2) = (must P r1 \<or> must P r2)"
| "must P (Alt r1 r2) = (must P r1 \<and> must P r2)"
| "must P (Grp n r) = must P r"
| "must P (NotSet cs) = False"
| "must P Dot = False"
| "must P (Star r) = False"
| "must P (Lazy r) = False"
| "must P (Opt r) = False"
| "must P Bol = False"
| "must P WordB = False"

text \<open>
  The invariant of the loop of \<^verbatim>\<open>extractComments\<close> after \<open>i\<close> lines: the elements are in
  the order of their lines, none lies beyond line \<open>i\<close>, an open block started at or before
  line \<open>i\<close> and after every multi-line element emitted so far, and no two single-line
  elements and no two multi-line elements share a line.
\<close>

definition is_multi :: "element \<Rightarrow> bool" where
  "is_multi e \<longleftrightarrow> type e = ''multi-line-comment''"

definition comments_inv :: "nat \<Rightarrow> cstate \<Rightarrow> bool" where
  "comments_inv i s \<longleftrightarrow>
     sorted (map line (comments s)) \<and>
     (\<forall>e \<in> set (comments s). line e \<le> i) \<and>
     (inMultiLineComment s \<longrightarrow>
        multiLineStartLine s \<le> i \<and>
        (\<forall>e \<in> set (comments s). line e \<le> multiLineStartLine s) \<and>
        (\<forall>e \<in> set (comments s). is_multi e \<longrightarrow> line e < multiLineStartLine s)) \<and>
     distinct (map line (filter is_multi (comments s))) \<and>
     distinct (map line (filter (\<lambda>e. \<not> is_multi e) (comments s)))"

text \<open>
  \<open>taken_from ps ln m\<close>: \<open>m\<close> is the match of the first pattern of the list \<open>ps\<close>, in its
  order, that matches the line \<open>ln\<close>.
\<close>

definition taken_from :: "re list \<Rightarrow> string \<Rightarrow> captures \<Rightarrow> bool" where
  "taken_from ps ln m \<longleftrightarrow>
     (\<exists>k < length ps. js_match ln (ps ! k) = Some m \<and> (\<forall>j < k. js_match ln (ps ! j) = None))"

text \<open>The line of the text that carries the number \<open>n\<close>.\<close>

definition line_at :: "string \<Rightarrow> nat \<Rightarrow> string" where
  "line_at txt n = split_nl txt ! (n - 1)"

text \<open>A five-line javascript source for concrete runs.\<close>

definition sample_source :: string where
  "sample_source =
     ''// @typedef {T} N'' @ [CHR 0x0A] @ ''export { a }'' @ [CHR 0x0A] @ ''class A {'' @
     [CHR 0x0A] @ ''function f() {'' @ [CHR 0x0A] @ ''const x = 1''"

text \<open>The elements of a result that carry the line number \<open>n\<close>.\<close>

definition at_line :: "nat \<Rightarrow> element list \<Rightarrow> element list" where
  "at_line n es = filter (\<lambda>e. line e = n) es"

text \<open>
  \<open>import_then P ln\<close>: somewhere in the line stands \<^verbatim>\<open>import\<close>, then white space, then a
  character in \<open>P\<close>. A line of a Go source is plain when no quote follows \<^verbatim>\<open>import\<close>
  and white space in it, and either no opening parenthesis does or the line has no closing
  parenthesis.
\<close>

fun import_then :: "(char \<Rightarrow> bool) \<Rightarrow> string \<Rightarrow> bool" where
  "import_then P [] = False"
| "import_then P (x # xs) =
     ((prefix ''import'' (x # xs) \<and> drop 6 (x # xs) \<noteq> [] \<and> is_space (hd (drop 6 (x # xs))) \<and>
       (case dropWhile is_space (drop 6 (x # xs)) of [] \<Rightarrow> False | c # _ \<Rightarrow> P c)) \<or>
      import_then P xs)"

definition is_quote :: "char \<Rightarrow> bool" where
  "is_quote c \<longleftrightarrow> c = CHR 0x27 \<or> c = CHR 0x22"

definition plain_go_line :: "string \<Rightarrow> bool" where
  "plain_go_line ln \<longleftrightarrow>
     \<not> import_then is_quote ln \<and>
     (\<not> import_then (\<lambda>c. c = CHR ''('') ln \<or> CHR '')'' \<notin> set ln)"

text \<open>
  Two Go sources: an import block with a comment on an inner line, followed by a one-line
  import; and an import block whose first line closes a parenthesis in a comment.
\<close>

definition sample_go :: string where
  "sample_go =
     ''import ('' @ [CHR 0x0A] @ ''  '' @ [CHR 0x22] @ ''fmt'' @ [CHR 0x22] @
     '' // import the driver'' @ [CHR 0x0A] @ '')'' @
     [CHR 0x0A] @ ''import '' @ [CHR 0x22] @ ''os'' @ [CHR 0x22]"

definition sample_go_header :: string where
  "sample_go_header =
     ''import ( // (std)'' @ [CHR 0x0A] @ ''  '' @ [CHR 0x22] @ ''fmt'' @ [CHR 0x22] @
     [CHR 0x0A] @ '')''"

text \<open>
  A text of well-formed comments, described line by line: a line of code without comment
  markers, a line with one single-line comment, a line with one block that opens and
  closes on it, a line with such a block followed by a single-line comment, and a block
  that spans several lines. The marker of a single-line comment is \<^verbatim>\<open>#\<close> in python and
  \<^verbatim>\<open>//\<close> in the other languages; a block opens with a triple quote in python and with
  \<^verbatim>\<open>/*\<close> in the other languages.
\<close>

datatype item =
    Code string
  | LineComment string string
  | BlockOne string string
  | BlockAndComment string string string
  | Block string string "string list" string

definition single_marker :: "string \<Rightarrow> string" where
  "single_marker lang = (if lang = ''python'' then ''#'' else ''//'')"

definition has_opener :: "string \<Rightarrow> string \<Rightarrow> bool" where
  "has_opener lang ln \<longleftrightarrow>
     (if lang = ''python'' then sublist sq3 ln \<or> sublist dq3 ln else sublist ''/*'' ln)"

fun item_lines :: "string \<Rightarrow> item \<Rightarrow> string list" where
  "item_lines lang (Code ln) = [ln]"
| "item_lines lang (LineComment pre rest) = [pre @ single_marker lang @ rest]"
| "item_lines lang (BlockOne pre rest) = [pre @ ''/*'' @ rest]"
| "item_lines lang (BlockAndComment pre mid rest) = [pre @ ''/*'' @ mid @ ''//'' @ rest]"
| "item_lines lang (Block pre first interior closing) =
     (pre @ ''/*'' @ first) # interior @ [closing]"

text \<open>
  What makes a line one of these: the marker written out is the first of its kind on the
  line; a line of code or with a single-line comment has no block opener; a block on one
  line closes after its opener and has no \<^verbatim>\<open>//\<close> before its closer, and none at all
  unless a single-line comment follows it; the opening line of a longer block has no
  \<^verbatim>\<open>//\<close> and no closer, its inner lines have no closer, and its last line has one.
  Blocks are described for the languages other than python.
\<close>

fun item_ok :: "string \<Rightarrow> item \<Rightarrow> bool" where
  "item_ok lang (Code ln) \<longleftrightarrow> \<not> sublist (single_marker lang) ln \<and> \<not> has_opener lang ln"
| "item_ok lang (LineComment pre rest) \<longleftrightarrow>
     \<not> sublist (single_marker lang) (pre @ butlast (single_marker lang)) \<and>
     \<not> has_opener lang (pre @ single_marker lang @ rest)"
| "item_ok lang (BlockOne pre rest) \<longleftrightarrow>
     lang \<noteq> ''python'' \<and>
     \<not> sublist ''/*'' (pre @ ''/'') \<and> \<not> sublist ''//'' (pre @ ''/*'' @ rest) \<and>
     sublist ''*/'' rest"
| "item_ok lang (BlockAndComment pre mid rest) \<longleftrightarrow>
     lang \<noteq> ''python'' \<and>
     \<not> sublist ''/*'' (pre @ ''/'') \<and> \<not> sublist ''//'' (pre @ ''/*'' @ mid @ ''/'') \<and>
     sublist ''*/'' mid"
| "item_ok lang (Block pre first interior closing) \<longleftrightarrow>
     lang \<noteq> ''python'' \<and>
     \<not> sublist ''/*'' (pre @ ''/'') \<and> \<not> sublist ''//'' (pre @ ''/*'' @ first) \<and>
     \<not> sublist ''*/'' (pre @ ''/*'' @ first) \<and>
     (\<forall>l \<in> set interior. \<not> sublist ''*/'' l) \<and> sublist ''*/'' closing"

text \<open>
  The part of a string before its first line terminator: what \<^verbatim>\<open>(.*)\<close> captures. Inside
  a line of a text of code units below 256 the only line terminator is the carriage
  return; U+2028 and U+2029, which \<^verbatim>\<open>.\<close> refuses too, are beyond these strings.
\<close>

definition upto_terminator :: "string \<Rightarrow> string" where
  "upto_terminator s = takeWhile (\<lambda>c. \<not> is_line_terminator c) s"

text \<open>
  The elements expected of an item whose first line has the number \<open>n\<close>: a single-line
  comment gives its trimmed text; a block gives the text after its opener and the lines
  that follow up to the closing line, joined by newlines and not trimmed; a line with a
  block and a single-line comment gives the single-line element first.
\<close>

fun item_elements :: "nat \<Rightarrow> item \<Rightarrow> element list" where
  "item_elements n (Code ln) = []"
| "item_elements n (LineComment pre rest) = [single_element n (trim (upto_terminator rest))]"
| "item_elements n (BlockOne pre rest) = [multi_element n (upto_terminator rest)]"
| "item_elements n (BlockAndComment pre mid rest) =
     [single_element n (trim (upto_terminator rest)),
      multi_element n (upto_terminator (mid @ ''//'' @ rest))]"
| "item_elements n (Block pre first interior closing) =
     [multi_element n
        (upto_terminator first @ concat (map (\<lambda>l. CHR 0x0A # l) (interior @ [closing])))]"

fun expected :: "string \<Rightarrow> nat \<Rightarrow> item list \<Rightarrow> element list" where
  "expected lang n [] = []"
| "expected lang n (it # its) =
     item_elements n it @ expected lang (n + length (item_lines lang it)) its"

text \<open>The items that hold a single-line comment, and those that hold a block.\<close>

fun is_single_item :: "item \<Rightarrow> bool" where
  "is_single_item (LineComment pre rest) = True"
| "is_single_item (BlockAndComment pre mid rest) = True"
| "is_single_item it = False"

fun is_block_item :: "item \<Rightarrow> bool" where
  "is_block_item (BlockOne pre rest) = True"
| "is_block_item (BlockAndComment pre mid rest) = True"
| "is_block_item (Block pre first interior closing) = True"
| "is_block_item it = False"

text \<open>The lines of a text joined by newlines.\<close>

fun join_nl :: "string list \<Rightarrow> string" where
  "join_nl [] = []"
| "join_nl [l] = l"
| "join_nl (l # l' # ls) = l @ CHR 0x0A # join_nl (l' # ls)"

text \<open>The three patterns of javascript, typescript, java and go, and those of python.\<close>

definition c_patterns :: "re \<times> re \<times> re" where
  "c_patterns = (c_singleLineComment, c_multiLineCommentStart, c_multiLineCommentEnd)"

definition py_patterns :: "re \<times> re \<times> re" where
  "py_patterns = (py_singleLineComment, py_multiLineCommentStart, py_multiLineCommentEnd)"

text \<open>A source with one comment of each kind, and a python source.\<close>

definition sample_items :: "item list" where
  "sample_items =
     [LineComment [] '' a'', Code ''x = 1'', Block ''  '' [] ['' * b''] '' */'',
      BlockOne [] '' c */'', BlockAndComment ''y '' '' d */ '' '' e'']"

definition sample_py_items :: "item list" where
  "sample_py_items = [Code ''x = 1'', LineComment ''y = 2  '' '' note '', Code []]"




text \<open>
  Three syntactic checks on a pattern: every match reads at least one character; no match
  touches capture group \<open>n\<close>; every match leaves capture group \<open>n\<close> set to a non-empty
  string.
\<close>

fun nonnull :: "re \<Rightarrow> bool" where
  "nonnull (Lit w) = (w \<noteq> [])"
| "nonnull (Set cs) = True"
| "nonnull (NotSet cs) = True"
| "nonnull Dot = True"
| "nonnull (Seq r1 r2) = (nonnull r1 \<or> nonnull r2)"
| "nonnull (Alt r1 r2) = (nonnull r1 \<and> nonnull r2)"
| "nonnull (Grp n r) = nonnull r"
| "nonnull (Star r) = False"
| "nonnull (Lazy r) = False"
| "nonnull (Opt r) = False"
| "nonnull Bol = False"
| "nonnull WordB = False"

fun keeps :: "nat \<Rightarrow> re \<Rightarrow> bool" where
  "keeps n (Grp k r) = (k \<noteq> n \<and> keeps n r)"
| "keeps n (Seq r1 r2) = (keeps n r1 \<and> keeps n r2)"
| "keeps n (Alt r1 r2) = (keeps n r1 \<and> keeps n r2)"
| "keeps n (Star r) = keeps n r"
| "keeps n (Lazy r) = keeps n r"
| "keeps n (Opt r) = keeps n r"
| "keeps n (Lit w) = True"
| "keeps n (Set cs) = True"
| "keeps n (NotSet cs) = True"
| "keeps n Dot = True"
| "keeps n Bol = True"
| "keeps n WordB = True"

fun sets :: "nat \<Rightarrow> re \<Rightarrow> bool" where
  "sets n (Grp k r) = (if k = n then nonnull r else sets n r)"
| "sets n (Seq r1 r2) = ((sets n r1 \<and> keeps n r2) \<or> sets n r2)"
| "sets n (Alt r1 r2) = (sets n r1 \<and> sets n r2)"
| "sets n (Star r) = False"
| "sets n (Lazy r) = False"
| "sets n (Opt r) = False"
| "sets n (Lit w) = False"
| "sets n (Set cs) = False"
| "sets n (NotSet cs) = False"
| "sets n Dot = False"
| "sets n Bol = False"
| "sets n WordB = False"

section \<open>Properties\<close>

subsection \<open>The reserved parameters\<close>

lemma process_files_flags:
  "process_files e (p\<lparr>includeDocstrings := d, includeSignatures := s\<rparr>) st fps =
   process_files e p st fps"
proof (induction fps arbitrary: st)
  case Nil
  show ?case by (cases st) simp
next
  case (Cons fp fps)
  show ?case
    by (cases st) (simp add: Cons.IH chosen_language_def split: sum.splits)
qed

lemma requested_files_flags:
  "requested_files (p\<lparr>includeDocstrings := d, includeSignatures := s\<rparr>) = requested_files p"
  by (simp add: requested_files_def split: option.splits)

lemma format_output_flags:
  "format_output e (p\<lparr>includeDocstrings := d, includeSignatures := s\<rparr>) rs = format_output e p rs"
  by (simp add: format_output_def)

lemma type_flags:
  "ExtractToolParams.type (p\<lparr>includeDocstrings := d, includeSignatures := s\<rparr>) =
   ExtractToolParams.type p"
  by simp

text \<open>
  C9. \<^verbatim>\<open>includeDocstrings\<close> and \<^verbatim>\<open>includeSignatures\<close> are accepted and have no effect:
  whatever values they are given, present or absent, \<^verbatim>\<open>execute\<close> returns the same result
  (the same formatted output, built from the same extracted elements), reads the same
  files, and the parameter check gives the same answer.
\<close>

theorem flags_have_no_effect:
  "execute e (p\<lparr>includeDocstrings := d, includeSignatures := s\<rparr>) = execute e p \<and>
   validateToolParamValues (p\<lparr>includeDocstrings := d, includeSignatures := s\<rparr>) =
     validateToolParamValues p"
proof
  show "execute e (p\<lparr>includeDocstrings := d, includeSignatures := s\<rparr>) = execute e p"
    unfolding execute_def requested_files_flags process_files_flags format_output_flags
      type_flags
    by (rule refl)
  show "validateToolParamValues (p\<lparr>includeDocstrings := d, includeSignatures := s\<rparr>) =
     validateToolParamValues p"
    by (simp add: validateToolParamValues_def)
qed

subsection \<open>No file requested\<close>

text \<open>
  C6. When the request has no \<^verbatim>\<open>file\<close> and no \<^verbatim>\<open>files\<close>, or an empty \<^verbatim>\<open>files\<close>
  list, \<^verbatim>\<open>execute\<close> returns a result object that carries the invalid-parameter error
  \<^verbatim>\<open>No files specified for extraction\<close>, the file reader is never called, and the
  parameter check rejects the request.
\<close>

theorem no_files_specified:
  assumes "files p = None \<or> files p = Some []" and "\<not> truthy (file p)"
  shows "execute e p =
           (\<lparr>llmContent = Text ''No files specified for extraction'',
             returnDisplay = ''No files specified'',
             error = Some \<lparr>message = ''No files specified for extraction'',
                           type = Some INVALID_TOOL_PARAMS\<rparr>\<rparr>, []) \<and>
         validateToolParamValues p =
           Some ''Either 'file' or 'files' parameter must be specified''"
  using assms
  by (auto simp: execute_def requested_files_def failure_def validateToolParamValues_def)

theorem no_files_specified_witness:
  "(files sample_params = None \<or> files sample_params = Some []) \<and>
   \<not> truthy (file sample_params) \<and>
   snd (execute sample_env sample_params) = [] \<and>
   map_option ToolError.type (error (fst (execute sample_env sample_params))) =
     Some (Some INVALID_TOOL_PARAMS)"
proof -
  have h1: "files sample_params = None \<or> files sample_params = Some []"
    by (simp add: sample_params_def)
  have h2: "\<not> truthy (file sample_params)"
    by (simp add: sample_params_def truthy_def)
  show ?thesis
    using h1 h2 no_files_specified [OF h1 h2, of sample_env] by simp
qed

subsection \<open>Language detection\<close>














subsection \<open>Facts about strings\<close>

lemma show_nat_digits: "set (show_nat n) \<subseteq> set ''0123456789''"
proof (induction n rule: show_nat.induct)
  case (1 n)
  have d: "digit_char k \<in> set ''0123456789''" if "k < 10" for k
    using that unfolding digit_char_def by (intro nth_mem) simp
  show ?case
  proof (cases "n < 10")
    case True
    then show ?thesis
      using d [of n] by (subst show_nat.simps) simp
  next
    case False
    have "n mod 10 < 10" by simp
    with False "1.IH" d [of "n mod 10"] show ?thesis
      by (subst show_nat.simps) simp
  qed
qed

lemma show_nat_not_Nil: "show_nat n \<noteq> []"
  by (subst show_nat.simps) simp

lemma show_nat_last: "last (show_nat n) \<in> set ''0123456789''"
  using show_nat_digits [of n] show_nat_not_Nil [of n] last_in_set by blast

lemma split_nl_not_Nil: "split_nl s \<noteq> []"
  by (induction s) (auto split: list.splits)

lemma hd_split_nl: "CHR 0x0A \<notin> set h \<Longrightarrow> hd (split_nl (h @ CHR 0x0A # r)) = h"
  by (induction h) (auto split: list.splits simp: split_nl_not_Nil)

lemma split_nl_single: "CHR 0x0A \<notin> set h \<Longrightarrow> split_nl h = [h]"
  by (induction h) (auto split: list.splits)

lemma trim_keeps_head:
  assumes "h \<noteq> []" and "\<not> is_space (hd h)" and "\<not> is_space (last h)"
  shows "\<exists>r'. trim (h @ r) = h @ r' \<and> prefix r' r"
proof -
  have l: "dropWhile is_space (h @ r) = h @ r"
    using assms by (cases h) simp_all
  have "rev (dropWhile is_space (rev r @ rev h)) = h @ rev (dropWhile is_space (rev r))"
  proof (cases "\<forall>c \<in> set (rev r). is_space c")
    case True
    moreover have "dropWhile is_space (rev h) = rev h"
      using assms by (cases h rule: rev_cases) simp_all
    ultimately show ?thesis by (simp add: dropWhile_append)
  next
    case False
    then show ?thesis by (auto simp: dropWhile_append)
  qed
  moreover have "prefix (rev (dropWhile is_space (rev r))) r"
    using suffix_dropWhile [of is_space "rev r"] by (simp add: suffix_to_prefix)
  ultimately show ?thesis
    by (auto simp: trim_def l)
qed

subsection \<open>The summary format\<close>

lemma summary_loop_eq:
  "summary_loop rel (t, out) rs =
     (t + sum_list (map (\<lambda>r. length (elements r)) rs), out @ concat (map (summary_line rel) rs))"
  by (induction rs arbitrary: t out) (simp_all add: summary_line_def)

lemma summary_header_first_line:
  assumes "CHR 0x0A \<notin> set h" and "h \<noteq> []" and "\<not> is_space (hd h)" and "\<not> is_space (last h)"
  shows "hd (split_nl (trim (h @ CHR 0x0A # r))) = h"
proof -
  obtain r' where t: "trim (h @ CHR 0x0A # r) = h @ r'" and p: "prefix r' (CHR 0x0A # r)"
    using trim_keeps_head [OF assms(2-4)] by blast
  show ?thesis
  proof (cases r')
    case Nil
    with t assms(1) show ?thesis by (simp add: split_nl_single)
  next
    case (Cons c cs)
    with p have "c = CHR 0x0A" by simp
    with t Cons assms(1) show ?thesis by (simp add: hd_split_nl)
  qed
qed

text \<open>
  C8. The output of the summary format is the line \<^verbatim>\<open>Total elements extracted: <sum>\<close>, an
  empty line, and one line \<^verbatim>\<open><path>: <count> elements\<close> per file, trimmed; the number on
  its first line is the sum of the counts printed on the per-file lines.
\<close>

theorem summary_total_is_sum:
  "formatAsSummary rel results =
     trim (''Total elements extracted: '' @
           show_nat (sum_list (map (\<lambda>r. length (elements r)) results)) @
           [CHR 0x0A, CHR 0x0A] @
           concat (map (\<lambda>r. rel (filePath r) @ '': '' @ show_nat (length (elements r)) @
                              '' elements'' @ [CHR 0x0A]) results)) \<and>
   hd (split_nl (formatAsSummary rel results)) =
     ''Total elements extracted: '' @
     show_nat (sum_list (map (\<lambda>r. length (elements r)) results))"
proof -
  let ?n = "sum_list (map (\<lambda>r. length (elements r)) results)"
  let ?h = "''Total elements extracted: '' @ show_nat ?n"
  let ?body = "concat (map (summary_line rel) results)"
  have eq: "formatAsSummary rel results = trim (?h @ CHR 0x0A # CHR 0x0A # ?body)"
    by (simp add: formatAsSummary_def summary_loop_eq)
  have nl: "CHR 0x0A \<notin> set ?h"
    using show_nat_digits [of ?n] by auto
  have lst: "\<not> is_space (last ?h)"
    using show_nat_last [of ?n] show_nat_not_Nil [of ?n] by (auto simp: is_space_def)
  have hd: "hd (split_nl (trim (?h @ CHR 0x0A # CHR 0x0A # ?body))) = ?h"
    by (rule summary_header_first_line [OF nl _ _ lst]) (simp_all add: is_space_def)
  have sl: "summary_line rel =
      (\<lambda>r. rel (filePath r) @ '': '' @ show_nat (length (elements r)) @ '' elements'' @ [CHR 0x0A])"
    by (rule ext) (simp add: summary_line_def)
  have first: "formatAsSummary rel results =
     trim (''Total elements extracted: '' @ show_nat ?n @ [CHR 0x0A, CHR 0x0A] @
           concat (map (\<lambda>r. rel (filePath r) @ '': '' @ show_nat (length (elements r)) @
                              '' elements'' @ [CHR 0x0A]) results))"
    unfolding eq sl by simp
  have second: "hd (split_nl (formatAsSummary rel results)) = ?h"
    unfolding eq by (rule hd)
  from first second show ?thesis
    by (rule conjI)
qed

subsection \<open>Facts about the matcher\<close>

lemma consumes_refl: "consumes st st"
  by (simp add: consumes_def)

lemma consumes_trans: "consumes a b \<Longrightarrow> consumes b c \<Longrightarrow> consumes a c"
  unfolding consumes_def by (elim exE conjE) (rule_tac x = "w @ wa" in exI, simp)

lemma eats_consumes: "eats P a b \<Longrightarrow> consumes a b"
  unfolding eats_def consumes_def by blast

lemma eats_then: "eats P a b \<Longrightarrow> consumes b c \<Longrightarrow> eats P a c"
  unfolding eats_def consumes_def
  by (elim exE conjE) (rule_tac x = "w @ wa" in exI, auto)

lemma then_eats: "consumes a b \<Longrightarrow> eats P b c \<Longrightarrow> eats P a c"
  unfolding eats_def consumes_def
  by (elim exE conjE) (rule_tac x = "w @ wa" in exI, auto)

lemma one_char_eats: "st' \<in> set (one_char p st) \<Longrightarrow> eats p st st'"
  by (cases st) (auto simp: one_char_def eats_def split: list.splits if_splits)

lemma one_char_consumes: "st' \<in> set (one_char p st) \<Longrightarrow> consumes st st'"
  using one_char_eats eats_consumes by blast

lemma star_consumes:
  assumes "\<And>a b. b \<in> set (f a) \<Longrightarrow> consumes a b"
  shows "st' \<in> set (star f n st) \<Longrightarrow> consumes st st'"
proof (induction n arbitrary: st)
  case 0
  then show ?case by (simp add: consumes_refl)
next
  case (Suc n)
  from Suc.prems consider "st' = st" | m where "m \<in> set (f st)" "st' \<in> set (star f n m)"
    by auto
  then show ?case
  proof cases
    case 1
    then show ?thesis by (simp add: consumes_refl)
  next
    case 2
    then show ?thesis using assms Suc.IH consumes_trans by blast
  qed
qed

lemma lazy_consumes:
  assumes "\<And>a b. b \<in> set (f a) \<Longrightarrow> consumes a b"
  shows "st' \<in> set (lazy f n st) \<Longrightarrow> consumes st st'"
proof (induction n arbitrary: st)
  case 0
  then show ?case by (simp add: consumes_refl)
next
  case (Suc n)
  from Suc.prems consider "st' = st" | m where "m \<in> set (f st)" "st' \<in> set (lazy f n m)"
    by auto
  then show ?case
  proof cases
    case 1
    then show ?thesis by (simp add: consumes_refl)
  next
    case 2
    then show ?thesis using assms Suc.IH consumes_trans by blast
  qed
qed

lemma set_group_consumes: "consumes st m \<Longrightarrow> consumes st (set_group n st m)"
  by (cases st, cases m) (simp add: consumes_def set_group_def)

lemma set_group_eats: "eats P st m \<Longrightarrow> eats P st (set_group n st m)"
  by (cases st, cases m) (simp add: eats_def set_group_def)

lemma rm_consumes: "st' \<in> set (rm r st) \<Longrightarrow> consumes st st'"
proof (induction r arbitrary: st st')
  case (Lit w)
  then show ?case
    by (cases st) (auto simp: consumes_def prefix_def split: if_splits)
next
  case (Seq r1 r2)
  from Seq.prems obtain m where "m \<in> set (rm r1 st)" "st' \<in> set (rm r2 m)"
    by auto
  with Seq.IH show ?case using consumes_trans by blast
next
  case (Alt r1 r2)
  from Alt.prems have "st' \<in> set (rm r1 st) \<or> st' \<in> set (rm r2 st)" by simp
  with Alt.IH show ?case by blast
next
  case (Star r)
  from Star.prems have "st' \<in> set (star (rm r) (length (fst (snd st))) st)" by simp
  with Star.IH show ?case using star_consumes [of "rm r"] by blast
next
  case (Lazy r)
  from Lazy.prems have "st' \<in> set (lazy (rm r) (length (fst (snd st))) st)" by simp
  with Lazy.IH show ?case using lazy_consumes [of "rm r"] by blast
next
  case (Opt r)
  from Opt.prems have "st' \<in> set (rm r st) \<or> st' = st" by auto
  with Opt.IH show ?case using consumes_refl by blast
next
  case (Grp n r)
  from Grp.prems obtain m where "m \<in> set (rm r st)" "st' = set_group n st m" by auto
  with Grp.IH show ?case using set_group_consumes by blast
next
  case Bol
  then show ?case by (cases st) (auto simp: consumes_refl split: if_splits)
next
  case WordB
  then show ?case by (cases st) (auto simp: consumes_refl split: if_splits)
next
  case (Set cs)
  then show ?case using one_char_consumes by simp
next
  case (NotSet cs)
  then show ?case using one_char_consumes by simp
next
  case Dot
  then show ?case using one_char_consumes by simp
qed

lemma only_in_citem: "only_in P i \<Longrightarrow> in_citem c i \<Longrightarrow> P c"
  by (cases i) simp_all

lemma rm_must: "must P r \<Longrightarrow> st' \<in> set (rm r st) \<Longrightarrow> eats P st st'"
proof (induction r arbitrary: st st')
  case (Lit w)
  obtain b s k where st: "st = (b, s, k)" by (cases st)
  from Lit.prems(2) have p: "prefix w s" and st': "st' = (rev w @ b, drop (length w) s, k)"
    by (auto simp: st split: if_splits)
  from p have "s = w @ drop (length w) s" by (auto simp: prefix_def)
  with Lit.prems(1) st' show ?case
    unfolding eats_def st by (intro exI [of _ w]) simp
next
  case (Set cs)
  from Set.prems(2) have "eats (\<lambda>c. \<exists>i \<in> set cs. in_citem c i) st st'"
    by (simp add: one_char_eats)
  then obtain w c i where w: "fst (snd st) = w @ fst (snd st')" "fst st' = rev w @ fst st"
    and c: "c \<in> set w" "i \<in> set cs" "in_citem c i"
    unfolding eats_def by blast
  from Set.prems(1) c have "P c" using only_in_citem by auto
  with w c show ?case unfolding eats_def by blast
next
  case (Seq r1 r2)
  from Seq.prems(2) obtain m where m: "m \<in> set (rm r1 st)" "st' \<in> set (rm r2 m)"
    by auto
  from Seq.prems(1) consider "must P r1" | "must P r2" by auto
  then show ?case
  proof cases
    case 1
    with m Seq.IH(1) rm_consumes eats_then show ?thesis by blast
  next
    case 2
    with m Seq.IH(2) rm_consumes then_eats show ?thesis by blast
  qed
next
  case (Alt r1 r2)
  from Alt.prems have "st' \<in> set (rm r1 st) \<or> st' \<in> set (rm r2 st)"
    and "must P r1" "must P r2" by simp_all
  with Alt.IH show ?case by blast
next
  case (Grp n r)
  from Grp.prems obtain m where "m \<in> set (rm r st)" "st' = set_group n st m" "must P r"
    by auto
  with Grp.IH show ?case using set_group_eats by blast
next
  case (NotSet cs)
  then show ?case by simp
next
  case Dot
  then show ?case by simp
next
  case (Star r)
  then show ?case by simp
next
  case (Lazy r)
  then show ?case by simp
next
  case (Opt r)
  then show ?case by simp
next
  case Bol
  then show ?case by simp
next
  case WordB
  then show ?case by simp
qed

lemma search_Some:
  "search r b s = Some k \<Longrightarrow>
     \<exists>b' s' st rest. rev b' @ s' = rev b @ s \<and> rm r (b', s', Map.empty) = st # rest \<and>
                     k = snd (snd st)"
proof (induction s arbitrary: b)
  case Nil
  then obtain st rest where "rm r (b, [], Map.empty) = st # rest" "k = snd (snd st)"
    by (auto split: list.splits)
  then show ?case by blast
next
  case (Cons x xs)
  show ?case
  proof (cases "rm r (b, x # xs, Map.empty)")
    case Nil
    with Cons.prems have "search r (x # b) xs = Some k" by simp
    from Cons.IH [OF this] show ?thesis by simp
  next
    case (Cons st rest)
    with Cons.prems have "k = snd (snd st)" by simp
    with Cons show ?thesis by blast
  qed
qed

lemma search_None:
  "search r b s = None \<Longrightarrow> s = u @ v \<Longrightarrow> rm r (rev u @ b, v, Map.empty) = []"
proof (induction s arbitrary: b u)
  case Nil
  then show ?case by (auto split: list.splits)
next
  case (Cons x xs)
  from Cons.prems(1) have here: "rm r (b, x # xs, Map.empty) = []"
    and later: "search r (x # b) xs = None"
    by (auto split: list.splits)
  show ?case
  proof (cases u)
    case Nil
    with Cons.prems(2) here show ?thesis by simp
  next
    case (Cons y ys)
    with Cons.prems(2) have "xs = ys @ v" "y = x" by simp_all
    with Cons.IH [OF later, of ys] Cons show ?thesis by simp
  qed
qed

lemma search_found:
  "rm r (rev u @ b, v, Map.empty) \<noteq> [] \<Longrightarrow> search r b (u @ v) \<noteq> None"
  using search_None by blast

lemma js_match_must:
  assumes "js_match ln r = Some m" and "must P r"
  shows "\<exists>c \<in> set ln. P c"
proof -
  from assms(1) have "search r [] ln = Some m" by (simp add: js_match_def)
  from search_Some [OF this] obtain b' s' st rest where
    ln: "rev b' @ s' = ln" and st: "rm r (b', s', Map.empty) = st # rest"
    by auto
  from st have "st \<in> set (rm r (b', s', Map.empty))" by simp
  from rm_must [OF assms(2) this] obtain w c where "s' = w @ fst (snd st)" "c \<in> set w" "P c"
    unfolding eats_def by auto
  with ln have "c \<in> set ln" by auto
  with \<open>P c\<close> show ?thesis by blast
qed

lemma js_match_first_lit:
  assumes "js_match ln (Seq (Lit w) r) = Some m"
  shows "sublist w ln"
proof -
  from assms have "search (Seq (Lit w) r) [] ln = Some m" by (simp add: js_match_def)
  from search_Some [OF this] obtain b' s' st rest where
    ln: "rev b' @ s' = ln" and st: "rm (Seq (Lit w) r) (b', s', Map.empty) = st # rest"
    by auto
  from st have "prefix w s'"
    by (auto split: if_splits)
  then obtain t where "s' = w @ t" by (auto simp: prefix_def)
  with ln have "ln = rev b' @ w @ t" by simp
  then show ?thesis unfolding sublist_def by blast
qed

subsection \<open>Facts about the loop over the lines\<close>

lemma scan_lines_acc: "scan_lines body acc lns i = acc @ scan_lines body [] lns i"
proof (induction lns arbitrary: acc i)
  case Nil
  show ?case by simp
next
  case (Cons ln lns)
  have "scan_lines body acc (ln # lns) i = scan_lines body (acc @ body ln (i + 1)) lns (i + 1)"
    by simp
  also have "\<dots> = (acc @ body ln (i + 1)) @ scan_lines body [] lns (i + 1)"
    by (rule Cons.IH)
  also have "\<dots> = acc @ scan_lines body (body ln (i + 1)) lns (i + 1)"
    using Cons.IH [of "body ln (i + 1)" "i + 1"] by simp
  finally show ?case by simp
qed

lemma scan_lines_Cons:
  "scan_lines body [] (ln # lns) i = body ln (i + 1) @ scan_lines body [] lns (i + 1)"
  using scan_lines_acc [of body "body ln (i + 1)" lns "i + 1"] by simp

lemma scan_lines_mem:
  "e \<in> set (scan_lines body [] lns i) \<longleftrightarrow> (\<exists>k < length lns. e \<in> set (body (lns ! k) (i + k + 1)))"
proof (induction lns arbitrary: i)
  case Nil
  show ?case by simp
next
  case (Cons ln lns)
  have "(\<exists>k < length (ln # lns). e \<in> set (body ((ln # lns) ! k) (i + k + 1))) \<longleftrightarrow>
        e \<in> set (body ln (i + 1)) \<or> (\<exists>k < length lns. e \<in> set (body (lns ! k) (i + 1 + k + 1)))"
    by (auto simp: less_Suc_eq_0_disj)
  then show ?case
    by (simp add: scan_lines_Cons Cons.IH del: scan_lines.simps)
qed

text \<open>
  When each iteration pushes at most one element and gives it the number of its line, the
  line numbers of the result increase strictly.
\<close>

lemma scan_lines_sorted:
  assumes "\<And>ln n. length (body ln n) \<le> Suc 0" and "\<And>ln n e. e \<in> set (body ln n) \<Longrightarrow> line e = n"
  shows "sorted_wrt (<) (map line (scan_lines body [] lns i))"
proof (induction lns arbitrary: i)
  case Nil
  show ?case by simp
next
  case (Cons ln lns)
  have later: "i + 1 < line e" if "e \<in> set (scan_lines body [] lns (i + 1))" for e
    using that assms(2) by (auto simp: scan_lines_mem)
  have one: "sorted_wrt (<) (map line (body ln (i + 1)))"
    using assms(1) [of ln "i + 1"] by (cases "body ln (i + 1)") simp_all
  show ?case
    using one Cons.IH [of "i + 1"] later assms(2) [of _ ln "i + 1"]
    by (auto simp: scan_lines_Cons sorted_wrt_append simp del: scan_lines.simps)
qed

lemma push_named_length: "length (push_named kind nm ln n) \<le> Suc 0"
  by (simp add: push_named_def)

lemma push_named_mem:
  "e \<in> set (push_named kind nm ln n) \<Longrightarrow> line e = n \<and> name e \<noteq> [] \<and> content e = trim ln"
  by (auto simp: push_named_def truthy_def split: option.splits if_splits)

lemma function_line_props:
  "length (function_line lang ps ln n) \<le> Suc 0"
  "e \<in> set (function_line lang ps ln n) \<Longrightarrow> line e = n"
  by (auto simp: function_line_def push_named_length dest: push_named_mem split: option.splits)

lemma class_line_props:
  "length (class_line lang ps ln n) \<le> Suc 0"
  "e \<in> set (class_line lang ps ln n) \<Longrightarrow> line e = n"
  by (auto simp: class_line_def push_named_length dest: push_named_mem split: option.splits)

lemma import_line_props:
  "length (import_line ps ln n) \<le> Suc 0"
  "e \<in> set (import_line ps ln n) \<Longrightarrow> line e = n"
  by (auto simp: import_line_def split: option.splits)

lemma variable_line_props:
  "length (variable_line lang ps ln n) \<le> Suc 0"
  "e \<in> set (variable_line lang ps ln n) \<Longrightarrow> line e = n"
  by (auto simp: variable_line_def push_named_length dest: push_named_mem split: option.splits if_splits)

lemma type_line_props:
  "length (type_line ps ln n) \<le> Suc 0"
  "e \<in> set (type_line ps ln n) \<Longrightarrow> line e = n"
  by (auto simp: type_line_def push_named_length dest: push_named_mem split: option.splits)

lemma extractFunctions_increasing: "sorted_wrt (<) (map line (extractFunctions txt lang))"
  unfolding extractFunctions_def
  by (auto split: option.splits intro!: scan_lines_sorted function_line_props)

lemma extractClasses_increasing: "sorted_wrt (<) (map line (extractClasses txt lang))"
  unfolding extractClasses_def
  by (auto split: option.splits intro!: scan_lines_sorted class_line_props)

lemma extractImports_increasing: "sorted_wrt (<) (map line (extractImports txt lang))"
  unfolding extractImports_def
  by (auto split: option.splits intro!: scan_lines_sorted import_line_props)

lemma extractVariables_increasing: "sorted_wrt (<) (map line (extractVariables txt lang))"
  unfolding extractVariables_def
  by (auto split: option.splits intro!: scan_lines_sorted variable_line_props)

lemma extractTypes_increasing: "sorted_wrt (<) (map line (extractTypes txt lang))"
  unfolding extractTypes_def
  by (auto split: option.splits intro!: scan_lines_sorted type_line_props)

subsection \<open>The loop of extractComments\<close>

lemma is_multi_simps [simp]:
  "is_multi (multi_element n t)" "\<not> is_multi (single_element n t)"
  by (simp_all add: is_multi_def multi_element_def single_element_def)

lemma line_simps [simp]:
  "line (multi_element n t) = n" "line (single_element n t) = n"
  by (simp_all add: multi_element_def single_element_def)

lemma comments_inv_init: "comments_inv 0 init_cstate"
  by (simp add: comments_inv_def init_cstate_def)

lemma in_block_step_inv:
  assumes "comments_inv i s" and "inMultiLineComment s"
  shows "comments_inv (Suc i) (in_block_step c s ln)"
proof (cases "js_match ln c")
  case None
  with assms show ?thesis
    by (auto simp: comments_inv_def in_block_step_def Let_def)
next
  case (Some m)
  from assms have fresh: "multiLineStartLine s \<notin> line ` {e \<in> set (comments s). is_multi e}"
    by (auto simp: comments_inv_def)
  from Some assms fresh show ?thesis
    by (auto simp: comments_inv_def in_block_step_def Let_def sorted_append)
qed

lemma single_step_inv:
  assumes "comments_inv i s" and "\<not> inMultiLineComment s" and "single_step a s ln (Suc i) = Inr s1"
  shows "comments_inv (Suc i) s1 \<and> \<not> inMultiLineComment s1"
proof (cases "js_match ln a")
  case None
  with assms show ?thesis
    by (auto simp: comments_inv_def single_step_def)
next
  case (Some m)
  with assms(3) obtain g where s1: "s1 = s\<lparr>comments := comments s @ [single_element (Suc i) (trim g)]\<rparr>"
    by (auto simp: single_step_def split: option.splits)
  from assms(1) have fresh: "Suc i \<notin> line ` set (comments s)"
    by (auto simp: comments_inv_def)
  from assms(1,2) fresh show ?thesis
    unfolding s1 by (auto simp: comments_inv_def sorted_append)
qed

lemma start_step_inv:
  assumes "comments_inv (Suc i) s" and "\<not> inMultiLineComment s"
    and "\<forall>e \<in> set (comments s). is_multi e \<longrightarrow> line e \<le> i"
  shows "comments_inv (Suc i) (start_step b c s ln (Suc i))"
proof (cases "js_match ln b")
  case None
  with assms show ?thesis by (simp add: start_step_def)
next
  case (Some m)
  from assms(3) have fresh: "Suc i \<notin> line ` {e \<in> set (comments s). is_multi e}"
    by auto
  show ?thesis
  proof (cases "js_match ln c")
    case None
    with Some assms show ?thesis
      by (auto simp: comments_inv_def start_step_def Let_def)
  next
    case (Some m')
    with \<open>js_match ln b = Some m\<close> assms fresh show ?thesis
      by (auto simp: comments_inv_def start_step_def Let_def sorted_append)
  qed
qed

lemma single_step_multis:
  assumes "single_step a s ln n = Inr s1" and "e \<in> set (comments s1)" and "is_multi e"
  shows "e \<in> set (comments s)"
  using assms by (auto simp: single_step_def split: option.splits)

lemma comment_step_inv:
  assumes "comments_inv i s" and "comment_step pats s ln (Suc i) = Inr s'"
  shows "comments_inv (Suc i) s'"
proof -
  obtain a b c where pats: "pats = (a, b, c)" by (cases pats)
  show ?thesis
  proof (cases "inMultiLineComment s")
    case True
    with assms show ?thesis
      by (auto simp: comment_step_def pats in_block_step_inv)
  next
    case False
    with assms(2) obtain s1 where s1: "single_step a s ln (Suc i) = Inr s1"
      and s': "s' = start_step b c s1 ln (Suc i)"
      by (auto simp: comment_step_def pats split: sum.splits)
    from single_step_inv [OF assms(1) False s1]
    have inv1: "comments_inv (Suc i) s1" and open1: "\<not> inMultiLineComment s1"
      by simp_all
    have "\<forall>e \<in> set (comments s1). is_multi e \<longrightarrow> line e \<le> i"
      using single_step_multis [OF s1] assms(1) by (auto simp: comments_inv_def)
    with inv1 open1 show ?thesis
      unfolding s' by (rule start_step_inv)
  qed
qed

lemma comments_loop_inv:
  "comments_inv i s \<Longrightarrow> comments_loop pats s lns i = Inr s' \<Longrightarrow>
   comments_inv (i + length lns) s'"
proof (induction lns arbitrary: s i)
  case Nil
  then show ?case by simp
next
  case (Cons ln lns)
  from Cons.prems(2) obtain s1 where s1: "comment_step pats s ln (Suc i) = Inr s1"
    and rest: "comments_loop pats s1 lns (Suc i) = Inr s'"
    by (auto split: sum.splits)
  from comment_step_inv [OF Cons.prems(1) s1] have "comments_inv (Suc i) s1" .
  from Cons.IH [OF this rest] show ?case by simp
qed

text \<open>No pattern leaves capture group 1 undefined, so the TypeError branch is never taken.\<close>

lemma rm_Lit_Nil [simp]: "rm (Lit []) st = [st]"
  by (cases st) simp

lemma rm_Grp_defined: "st' \<in> set (rm (Grp n r) st) \<Longrightarrow> snd (snd st') n \<noteq> None"
  by (cases st) (auto simp: set_group_def split: prod.splits)

lemma lit_group_defined:
  assumes "js_match ln (cat [Lit w, Grp n r]) = Some m"
  shows "m n \<noteq> None"
proof -
  from assms have "search (cat [Lit w, Grp n r]) [] ln = Some m" by (simp add: js_match_def)
  from search_Some [OF this] obtain b' s' st rest where
    st: "rm (cat [Lit w, Grp n r]) (b', s', Map.empty) = st # rest" and m: "m = snd (snd st)"
    by auto
  from st have "st \<in> set (rm (cat [Lit w, Grp n r]) (b', s', Map.empty))" by simp
  then obtain m1 where "st \<in> set (rm (Grp n r) m1)"
    by (auto simp: cat_def simp del: rm.simps(1,10) split: if_splits)
  with m show ?thesis using rm_Grp_defined by blast
qed

lemma commentPatterns_cases:
  assumes "commentPatterns lang = Some (a, b, c)"
  shows "a = c_singleLineComment \<or> a = py_singleLineComment"
  using assms by (auto simp: commentPatterns_def split: if_splits)

lemma single_step_total:
  assumes "commentPatterns lang = Some (a, b, c)"
  shows "\<exists>s1. single_step a s ln n = Inr s1"
proof (cases "js_match ln a")
  case None
  then show ?thesis by (simp add: single_step_def)
next
  case (Some m)
  from commentPatterns_cases [OF assms] Some have "m 1 \<noteq> None"
    using lit_group_defined [of ln _ 1 "Star Dot" m]
    by (auto simp: c_singleLineComment_def py_singleLineComment_def)
  with Some show ?thesis by (auto simp: single_step_def)
qed

lemma comment_step_total:
  assumes "commentPatterns lang = Some pats"
  shows "\<exists>s'. comment_step pats s ln n = Inr s'"
proof -
  obtain a b c where pats: "pats = (a, b, c)" by (cases pats)
  from single_step_total [of lang a b c s ln n] assms pats
  obtain s1 where "single_step a s ln n = Inr s1" by auto
  then show ?thesis by (simp add: comment_step_def pats)
qed

lemma comments_loop_total:
  assumes "commentPatterns lang = Some pats"
  shows "\<exists>s'. comments_loop pats s lns i = Inr s'"
proof (induction lns arbitrary: s i)
  case Nil
  show ?case by simp
next
  case (Cons ln lns)
  from comment_step_total [OF assms] obtain s1 where "comment_step pats s ln (i + 1) = Inr s1"
    by blast
  with Cons.IH [of s1 "i + 1"] show ?case by simp
qed

lemma extractComments_total: "\<exists>es. extractComments txt lang = Inr es"
proof (cases "commentPatterns lang")
  case None
  then show ?thesis by (simp add: extractComments_def)
next
  case (Some pats)
  from comments_loop_total [OF Some] obtain s' where
    "comments_loop pats init_cstate (split_nl txt) 0 = Inr s'" by blast
  with Some show ?thesis by (simp add: extractComments_def)
qed

lemma extractComments_inv:
  assumes "extractComments txt lang = Inr es"
  shows "es = [] \<or> (\<exists>s. es = comments s \<and> comments_inv (length (split_nl txt)) s)"
proof (cases "commentPatterns lang")
  case None
  with assms show ?thesis by (simp add: extractComments_def)
next
  case (Some pats)
  with assms obtain s' where s': "comments_loop pats init_cstate (split_nl txt) 0 = Inr s'"
    and es: "es = comments s'"
    by (auto simp: extractComments_def split: sum.splits)
  from comments_loop_inv [OF comments_inv_init s'] es show ?thesis by auto
qed

subsection \<open>Order of the elements\<close>

text \<open>
  C7. Every extractor returns its elements in the order of the source: the line numbers
  of successive elements never decrease. For \<^verbatim>\<open>extractComments\<close>, which always returns
  normally, this includes the multi-line elements, which carry the line on which their
  block started.
\<close>

theorem elements_in_source_order:
  "sorted (map line (extractFunctions txt lang)) \<and>
   sorted (map line (extractClasses txt lang)) \<and>
   sorted (map line (extractImports txt lang)) \<and>
   sorted (map line (extractVariables txt lang)) \<and>
   sorted (map line (extractTypes txt lang)) \<and>
   (\<exists>es. extractComments txt lang = Inr es \<and> sorted (map line es))"
proof -
  obtain es where es: "extractComments txt lang = Inr es"
    using extractComments_total by blast
  from extractComments_inv [OF es] have "sorted (map line es)"
    by (auto simp: comments_inv_def)
  with es show ?thesis
    using extractFunctions_increasing [of "txt" lang] extractClasses_increasing [of "txt" lang]
      extractImports_increasing [of "txt" lang] extractVariables_increasing [of "txt" lang]
      extractTypes_increasing [of "txt" lang]
    by (simp add: strict_sorted_iff)
qed

subsection \<open>The first matching pattern\<close>

lemma first_match_taken: "first_match ps ln = Some m \<longleftrightarrow> taken_from ps ln m"
proof (induction ps)
  case Nil
  show ?case by (simp add: taken_from_def)
next
  case (Cons p ps)
  show ?case
  proof (cases "js_match ln p")
    case None
    have "taken_from (p # ps) ln m \<longleftrightarrow> taken_from ps ln m"
    proof
      assume "taken_from (p # ps) ln m"
      then obtain k where k: "k < length (p # ps)" "js_match ln ((p # ps) ! k) = Some m"
        "\<forall>j < k. js_match ln ((p # ps) ! j) = None"
        unfolding taken_from_def by blast
      with None obtain k' where k': "k = Suc k'" by (cases k) auto
      with k have "k' < length ps" "js_match ln (ps ! k') = Some m" by simp_all
      moreover have "\<forall>j < k'. js_match ln (ps ! j) = None"
        using k(3) k' by (metis Suc_less_eq nth_Cons_Suc)
      ultimately show "taken_from ps ln m"
        unfolding taken_from_def by blast
    next
      assume "taken_from ps ln m"
      then obtain k where k: "k < length ps" "js_match ln (ps ! k) = Some m"
        "\<forall>j < k. js_match ln (ps ! j) = None"
        unfolding taken_from_def by blast
      have "\<forall>j < Suc k. js_match ln ((p # ps) ! j) = None"
        using k(3) None by (auto simp: less_Suc_eq_0_disj)
      with k(1,2) show "taken_from (p # ps) ln m"
        unfolding taken_from_def by (intro exI [of _ "Suc k"]) simp
    qed
    with None Cons.IH show ?thesis by simp
  next
    case (Some m')
    have "taken_from (p # ps) ln m \<longleftrightarrow> m = m'"
    proof
      assume "taken_from (p # ps) ln m"
      then obtain k where k: "js_match ln ((p # ps) ! k) = Some m"
        "\<forall>j < k. js_match ln ((p # ps) ! j) = None"
        unfolding taken_from_def by blast
      with Some have "k = 0" by (cases k) auto
      with k Some show "m = m'" by simp
    next
      assume "m = m'"
      with Some show "taken_from (p # ps) ln m"
        unfolding taken_from_def by (intro exI [of _ 0]) simp
    qed
    with Some show ?thesis by auto
  qed
qed

lemma if_empty_mem: "e \<in> set (if c then [] else xs) \<longleftrightarrow> \<not> c \<and> e \<in> set xs"
  by simp

lemma scan_first_match_mem:
  "e \<in> set (scan_lines (\<lambda>ln n. case first_match ps ln of None \<Rightarrow> [] | Some m \<Rightarrow> g m ln n) [] lns i) \<longleftrightarrow>
     (\<exists>k m. k < length lns \<and> first_match ps (lns ! k) = Some m \<and> e \<in> set (g m (lns ! k) (i + k + 1)))"
  (is "?l \<longleftrightarrow> ?r")
proof
  assume ?l
  then obtain k where k: "k < length lns"
    and e: "e \<in> set (case first_match ps (lns ! k) of None \<Rightarrow> [] | Some m \<Rightarrow> g m (lns ! k) (i + k + 1))"
    unfolding scan_lines_mem by blast
  from e obtain m where "first_match ps (lns ! k) = Some m" "e \<in> set (g m (lns ! k) (i + k + 1))"
    by (cases "first_match ps (lns ! k)") auto
  with k show ?r by blast
next
  assume ?r
  then obtain k m where k: "k < length lns" and m: "first_match ps (lns ! k) = Some m"
    and e: "e \<in> set (g m (lns ! k) (i + k + 1))"
    by blast
  from m e have "e \<in> set (case first_match ps (lns ! k) of None \<Rightarrow> [] | Some m \<Rightarrow> g m (lns ! k) (i + k + 1))"
    by simp
  with k show ?l unfolding scan_lines_mem by blast
qed

lemma extractFunctions_mem:
  "e \<in> set (extractFunctions txt lang) \<longleftrightarrow>
     (\<exists>ps k m. functionPatterns lang = Some ps \<and> k < length (split_nl txt) \<and>
        first_match ps (split_nl txt ! k) = Some m \<and>
        e \<in> set (push_named ''function'' (functionName lang m) (split_nl txt ! k) (k + 1)))"
proof (cases "functionPatterns lang")
  case None
  then show ?thesis by (simp add: extractFunctions_def)
next
  case (Some ps)
  have "function_line lang ps =
      (\<lambda>ln n. case first_match ps ln of None \<Rightarrow> []
               | Some m \<Rightarrow> push_named ''function'' (functionName lang m) ln n)"
    by (intro ext) (simp add: function_line_def)
  with Some show ?thesis
    by (simp add: extractFunctions_def scan_first_match_mem)
qed

lemma extractClasses_mem:
  "e \<in> set (extractClasses txt lang) \<longleftrightarrow>
     (\<exists>ps k m. classPatterns lang = Some ps \<and> k < length (split_nl txt) \<and>
        first_match ps (split_nl txt ! k) = Some m \<and>
        e \<in> set (push_named ''class'' (className lang m) (split_nl txt ! k) (k + 1)))"
proof (cases "classPatterns lang")
  case None
  then show ?thesis by (simp add: extractClasses_def)
next
  case (Some ps)
  have "class_line lang ps =
      (\<lambda>ln n. case first_match ps ln of None \<Rightarrow> []
               | Some m \<Rightarrow> push_named ''class'' (className lang m) ln n)"
    by (intro ext) (simp add: class_line_def)
  with Some show ?thesis
    by (simp add: extractClasses_def scan_first_match_mem)
qed

lemma extractImports_mem:
  "e \<in> set (extractImports txt lang) \<longleftrightarrow>
     (\<exists>ps k m. importPatterns lang = Some ps \<and> k < length (split_nl txt) \<and>
        first_match ps (split_nl txt ! k) = Some m \<and>
        e = \<lparr>type = ''import'', name = importName m (split_nl txt ! k), line = k + 1,
             content = trim (split_nl txt ! k)\<rparr>)"
proof (cases "importPatterns lang")
  case None
  then show ?thesis by (simp add: extractImports_def)
next
  case (Some ps)
  have "import_line ps =
      (\<lambda>ln n. case first_match ps ln of None \<Rightarrow> []
               | Some m \<Rightarrow> [\<lparr>type = ''import'', name = importName m ln, line = n,
                               content = trim ln\<rparr>])"
    by (intro ext) (simp add: import_line_def)
  with Some show ?thesis
    by (simp add: extractImports_def scan_first_match_mem)
qed

lemma extractVariables_mem:
  "e \<in> set (extractVariables txt lang) \<longleftrightarrow>
     (\<exists>ps k m. variablePatterns lang = Some ps \<and> k < length (split_nl txt) \<and>
        \<not> skipped_line (split_nl txt ! k) \<and>
        first_match ps (split_nl txt ! k) = Some m \<and>
        e \<in> set (push_named ''variable'' (variableName lang m) (split_nl txt ! k) (k + 1)))"
proof (cases "variablePatterns lang")
  case None
  then show ?thesis by (simp add: extractVariables_def)
next
  case (Some ps)
  have "variable_line lang ps =
      (\<lambda>ln n. case first_match ps ln of None \<Rightarrow> []
               | Some m \<Rightarrow> if skipped_line ln then []
                           else push_named ''variable'' (variableName lang m) ln n)"
    by (intro ext) (simp add: variable_line_def split: option.splits)
  with Some have "e \<in> set (extractVariables txt lang) \<longleftrightarrow>
     (\<exists>k m. k < length (split_nl txt) \<and> first_match ps (split_nl txt ! k) = Some m \<and>
        e \<in> set (if skipped_line (split_nl txt ! k) then []
                  else push_named ''variable'' (variableName lang m) (split_nl txt ! k) (k + 1)))"
    by (simp add: extractVariables_def scan_first_match_mem)
  also have "\<dots> \<longleftrightarrow> (\<exists>k m. k < length (split_nl txt) \<and> \<not> skipped_line (split_nl txt ! k) \<and>
        first_match ps (split_nl txt ! k) = Some m \<and>
        e \<in> set (push_named ''variable'' (variableName lang m) (split_nl txt ! k) (k + 1)))"
    by (simp only: if_empty_mem) blast
  finally show ?thesis using Some by simp
qed

lemma extractTypes_mem:
  "e \<in> set (extractTypes txt lang) \<longleftrightarrow>
     (\<exists>ps k m. typePatterns lang = Some ps \<and> k < length (split_nl txt) \<and>
        first_match ps (split_nl txt ! k) = Some m \<and>
        e \<in> set (push_named ''type'' (typeName m (split_nl txt ! k)) (split_nl txt ! k) (k + 1)))"
proof (cases "typePatterns lang")
  case None
  then show ?thesis by (simp add: extractTypes_def)
next
  case (Some ps)
  have "type_line ps =
      (\<lambda>ln n. case first_match ps ln of None \<Rightarrow> []
               | Some m \<Rightarrow> push_named ''type'' (typeName m ln) ln n)"
    by (intro ext) (simp add: type_line_def)
  with Some show ?thesis
    by (simp add: extractTypes_def scan_first_match_mem)
qed

lemma push_named_taken:
  assumes "k < length (split_nl txt)" and "first_match ps (split_nl txt ! k) = Some m"
    and "e \<in> set (push_named kind nm (split_nl txt ! k) (k + 1))"
  shows "line_at txt (line e) = split_nl txt ! k \<and> taken_from ps (line_at txt (line e)) m \<and>
         nm = Some (name e)"
proof -
  from assms(3) have "line e = k + 1"
    using push_named_mem by blast
  moreover from assms(3) have "nm = Some (name e)"
    by (auto simp: push_named_def truthy_def split: if_splits option.splits)
  ultimately show ?thesis
    using assms(2) by (simp add: line_at_def first_match_taken)
qed

text \<open>
  C2, as amended. In each of the five extractors that have a pattern list, no two elements
  come from the same line, and an element comes from the match of the first pattern, in
  the order of the list, that matches its line. \<^verbatim>\<open>extractComments\<close> has no pattern list:
  a line gives at most one single-line element and at most one multi-line element.
\<close>

theorem first_pattern_wins:
  "distinct (map line (extractFunctions txt lang)) \<and>
   distinct (map line (extractClasses txt lang)) \<and>
   distinct (map line (extractImports txt lang)) \<and>
   distinct (map line (extractVariables txt lang)) \<and>
   distinct (map line (extractTypes txt lang)) \<and>
   (ef \<in> set (extractFunctions txt lang) \<longrightarrow>
      (\<exists>ps m. functionPatterns lang = Some ps \<and> taken_from ps (line_at txt (line ef)) m \<and>
         functionName lang m = Some (name ef))) \<and>
   (ec \<in> set (extractClasses txt lang) \<longrightarrow>
      (\<exists>ps m. classPatterns lang = Some ps \<and> taken_from ps (line_at txt (line ec)) m \<and>
         className lang m = Some (name ec))) \<and>
   (ei \<in> set (extractImports txt lang) \<longrightarrow>
      (\<exists>ps m. importPatterns lang = Some ps \<and> taken_from ps (line_at txt (line ei)) m \<and>
         importName m (line_at txt (line ei)) = name ei)) \<and>
   (ev \<in> set (extractVariables txt lang) \<longrightarrow>
      (\<exists>ps m. variablePatterns lang = Some ps \<and> taken_from ps (line_at txt (line ev)) m \<and>
         variableName lang m = Some (name ev))) \<and>
   (et \<in> set (extractTypes txt lang) \<longrightarrow>
      (\<exists>ps m. typePatterns lang = Some ps \<and> taken_from ps (line_at txt (line et)) m \<and>
         typeName m (line_at txt (line et)) = Some (name et))) \<and>
   (extractComments txt lang = Inr es \<longrightarrow>
      distinct (map line (filter is_multi es)) \<and>
      distinct (map line (filter (\<lambda>e. \<not> is_multi e) es)))"
proof -
  have f: "ef \<in> set (extractFunctions txt lang) \<longrightarrow>
      (\<exists>ps m. functionPatterns lang = Some ps \<and> taken_from ps (line_at txt (line ef)) m \<and>
         functionName lang m = Some (name ef))"
  proof
    assume "ef \<in> set (extractFunctions txt lang)"
    then obtain ps k m where *: "functionPatterns lang = Some ps" "k < length (split_nl txt)"
      "first_match ps (split_nl txt ! k) = Some m"
      "ef \<in> set (push_named ''function'' (functionName lang m) (split_nl txt ! k) (k + 1))"
      unfolding extractFunctions_mem by blast
    from *(1) push_named_taken [OF *(2,3,4)]
    show "(\<exists>ps m. functionPatterns lang = Some ps \<and> taken_from ps (line_at txt (line ef)) m \<and>
         functionName lang m = Some (name ef))"
      by auto
  qed
  have c: "ec \<in> set (extractClasses txt lang) \<longrightarrow>
      (\<exists>ps m. classPatterns lang = Some ps \<and> taken_from ps (line_at txt (line ec)) m \<and>
         className lang m = Some (name ec))"
  proof
    assume "ec \<in> set (extractClasses txt lang)"
    then obtain ps k m where *: "classPatterns lang = Some ps" "k < length (split_nl txt)"
      "first_match ps (split_nl txt ! k) = Some m"
      "ec \<in> set (push_named ''class'' (className lang m) (split_nl txt ! k) (k + 1))"
      unfolding extractClasses_mem by blast
    from *(1) push_named_taken [OF *(2,3,4)]
    show "(\<exists>ps m. classPatterns lang = Some ps \<and> taken_from ps (line_at txt (line ec)) m \<and>
         className lang m = Some (name ec))"
      by auto
  qed
  have i: "ei \<in> set (extractImports txt lang) \<longrightarrow>
      (\<exists>ps m. importPatterns lang = Some ps \<and> taken_from ps (line_at txt (line ei)) m \<and>
         importName m (line_at txt (line ei)) = name ei)"
  proof
    assume "ei \<in> set (extractImports txt lang)"
    then obtain ps k m where *: "importPatterns lang = Some ps" "k < length (split_nl txt)"
      "first_match ps (split_nl txt ! k) = Some m"
      "ei = \<lparr>type = ''import'', name = importName m (split_nl txt ! k), line = k + 1,
             content = trim (split_nl txt ! k)\<rparr>"
      unfolding extractImports_mem by blast
    from *(4) have "line_at txt (line ei) = split_nl txt ! k" "name ei = importName m (split_nl txt ! k)"
      by (simp_all add: line_at_def)
    with *(1,3)
    show "(\<exists>ps m. importPatterns lang = Some ps \<and> taken_from ps (line_at txt (line ei)) m \<and>
         importName m (line_at txt (line ei)) = name ei)"
      by (auto simp: first_match_taken)
  qed
  have v: "ev \<in> set (extractVariables txt lang) \<longrightarrow>
      (\<exists>ps m. variablePatterns lang = Some ps \<and> taken_from ps (line_at txt (line ev)) m \<and>
         variableName lang m = Some (name ev))"
  proof
    assume "ev \<in> set (extractVariables txt lang)"
    then obtain ps k m where *: "variablePatterns lang = Some ps" "k < length (split_nl txt)"
      "first_match ps (split_nl txt ! k) = Some m"
      "ev \<in> set (push_named ''variable'' (variableName lang m) (split_nl txt ! k) (k + 1))"
      unfolding extractVariables_mem by blast
    from *(1) push_named_taken [OF *(2,3,4)]
    show "(\<exists>ps m. variablePatterns lang = Some ps \<and> taken_from ps (line_at txt (line ev)) m \<and>
         variableName lang m = Some (name ev))"
      by auto
  qed
  have t: "et \<in> set (extractTypes txt lang) \<longrightarrow>
      (\<exists>ps m. typePatterns lang = Some ps \<and> taken_from ps (line_at txt (line et)) m \<and>
         typeName m (line_at txt (line et)) = Some (name et))"
  proof
    assume "et \<in> set (extractTypes txt lang)"
    then obtain ps k m where *: "typePatterns lang = Some ps" "k < length (split_nl txt)"
      "first_match ps (split_nl txt ! k) = Some m"
      "et \<in> set (push_named ''type'' (typeName m (split_nl txt ! k)) (split_nl txt ! k) (k + 1))"
      unfolding extractTypes_mem by blast
    from *(1) push_named_taken [OF *(2,3,4)]
    show "(\<exists>ps m. typePatterns lang = Some ps \<and> taken_from ps (line_at txt (line et)) m \<and>
         typeName m (line_at txt (line et)) = Some (name et))"
      by auto
  qed
  have k: "extractComments txt lang = Inr es \<longrightarrow>
      distinct (map line (filter is_multi es)) \<and>
      distinct (map line (filter (\<lambda>e. \<not> is_multi e) es))"
    using extractComments_inv [of "txt" lang es] by (auto simp: comments_inv_def)
  show ?thesis
    using extractFunctions_increasing [of "txt" lang] extractClasses_increasing [of "txt" lang]
      extractImports_increasing [of "txt" lang] extractVariables_increasing [of "txt" lang]
      extractTypes_increasing [of "txt" lang]
    unfolding strict_sorted_iff by (intro conjI f c i v t k) simp_all
qed

theorem first_pattern_wins_witness:
  "\<lparr>type = ''function'', name = ''f'', line = 4, content = ''function f() {''\<rparr>
     \<in> set (extractFunctions sample_source ''javascript'') \<and>
   \<lparr>type = ''class'', name = ''A'', line = 3, content = ''class A {''\<rparr>
     \<in> set (extractClasses sample_source ''javascript'') \<and>
   \<lparr>type = ''import'', name = ''export { a }'', line = 2, content = ''export { a }''\<rparr>
     \<in> set (extractImports sample_source ''javascript'') \<and>
   \<lparr>type = ''variable'', name = ''x'', line = 5, content = ''const x = 1''\<rparr>
     \<in> set (extractVariables sample_source ''javascript'') \<and>
   \<lparr>type = ''type'', name = ''N'', line = 1, content = ''// @typedef {T} N''\<rparr>
     \<in> set (extractTypes sample_source ''javascript'') \<and>
   extractComments sample_source ''javascript'' = Inr [single_element 1 ''@typedef {T} N''] \<and>
   (\<exists>ps m. functionPatterns ''javascript'' = Some ps \<and>
      taken_from ps (line_at sample_source 4) m \<and> functionName ''javascript'' m = Some ''f'') \<and>
   (\<exists>ps m. classPatterns ''javascript'' = Some ps \<and>
      taken_from ps (line_at sample_source 3) m \<and> className ''javascript'' m = Some ''A'') \<and>
   (\<exists>ps m. importPatterns ''javascript'' = Some ps \<and>
      taken_from ps (line_at sample_source 2) m \<and>
      importName m (line_at sample_source 2) = ''export { a }'') \<and>
   (\<exists>ps m. variablePatterns ''javascript'' = Some ps \<and>
      taken_from ps (line_at sample_source 5) m \<and> variableName ''javascript'' m = Some ''x'') \<and>
   (\<exists>ps m. typePatterns ''javascript'' = Some ps \<and>
      taken_from ps (line_at sample_source 1) m \<and>
      typeName m (line_at sample_source 1) = Some ''N'') \<and>
   distinct (map line (filter is_multi [single_element 1 ''@typedef {T} N''])) \<and>
   distinct (map line (filter (\<lambda>e. \<not> is_multi e) [single_element 1 ''@typedef {T} N'']))"
proof -
  have f: "extractFunctions sample_source ''javascript'' =
      [\<lparr>type = ''function'', name = ''f'', line = 4, content = ''function f() {''\<rparr>]"
    by code_simp
  have c: "extractClasses sample_source ''javascript'' =
      [\<lparr>type = ''class'', name = ''A'', line = 3, content = ''class A {''\<rparr>]"
    by code_simp
  have i: "extractImports sample_source ''javascript'' =
      [\<lparr>type = ''import'', name = ''export { a }'', line = 2, content = ''export { a }''\<rparr>]"
    by code_simp
  have v: "extractVariables sample_source ''javascript'' =
      [\<lparr>type = ''variable'', name = ''x'', line = 5, content = ''const x = 1''\<rparr>]"
    by code_simp
  have t: "extractTypes sample_source ''javascript'' =
      [\<lparr>type = ''type'', name = ''N'', line = 1, content = ''// @typedef {T} N''\<rparr>]"
    by code_simp
  have k: "extractComments sample_source ''javascript'' = Inr [single_element 1 ''@typedef {T} N'']"
    by code_simp
  show ?thesis
    using first_pattern_wins [of sample_source "''javascript''"
        "\<lparr>type = ''function'', name = ''f'', line = 4, content = ''function f() {''\<rparr>"
        "\<lparr>type = ''class'', name = ''A'', line = 3, content = ''class A {''\<rparr>"
        "\<lparr>type = ''import'', name = ''export { a }'', line = 2, content = ''export { a }''\<rparr>"
        "\<lparr>type = ''variable'', name = ''x'', line = 5, content = ''const x = 1''\<rparr>"
        "\<lparr>type = ''type'', name = ''N'', line = 1, content = ''// @typedef {T} N''\<rparr>"
        "[single_element 1 ''@typedef {T} N'']"]
    unfolding f c i v t k by simp
qed

text \<open>
  C2 as stated fails: one line with a single-line comment that holds a block gives two
  elements.
\<close>

theorem one_element_per_line_counterexample:
  "split_nl ''// a /* b */'' = [''// a /* b */''] \<and>
   extractComments ''// a /* b */'' ''javascript'' =
     Inr [single_element 1 ''a /* b */'', multi_element 1 '' b */'']"
  by code_simp

subsection \<open>Names\<close>

lemma trim_Nil_iff: "trim s = [] \<longleftrightarrow> (\<forall>c \<in> set s. is_space c)"
proof
  assume "trim s = []"
  then have "\<forall>c \<in> set (dropWhile is_space s). is_space c"
    by (simp add: trim_def)
  then have "dropWhile is_space s = []"
    using hd_dropWhile [of is_space s] by (cases "dropWhile is_space s") auto
  then show "\<forall>c \<in> set s. is_space c"
    by simp
next
  assume "\<forall>c \<in> set s. is_space c"
  then show "trim s = []"
    by (auto simp: trim_def dest: set_dropWhileD)
qed

lemma first_match_in: "first_match ps ln = Some m \<Longrightarrow> \<exists>p \<in> set ps. js_match ln p = Some m"
  by (induction ps) (auto split: option.splits)

lemma import_patterns_must:
  "importPatterns lang = Some ps \<Longrightarrow> p \<in> set ps \<Longrightarrow> must (\<lambda>c. \<not> is_space c) p"
  by (auto simp: importPatterns_def cat_def is_space_def split: if_splits)

lemma type_patterns_must:
  "typePatterns lang = Some ps \<Longrightarrow> p \<in> set ps \<Longrightarrow> must (\<lambda>c. \<not> is_space c) p"
  by (auto simp: typePatterns_def cat_def is_space_def split: if_splits)

lemma matched_line_not_blank:
  assumes "first_match ps ln = Some m" and "\<And>p. p \<in> set ps \<Longrightarrow> must (\<lambda>c. \<not> is_space c) p"
  shows "trim ln \<noteq> []"
proof -
  from first_match_in [OF assms(1)] obtain p where "p \<in> set ps" "js_match ln p = Some m"
    by blast
  with assms(2) js_match_must [of ln p m "\<lambda>c. \<not> is_space c"] show ?thesis
    by (auto simp: trim_Nil_iff)
qed

lemma scan_lines_at_line:
  assumes "\<And>ln n e. e \<in> set (body ln n) \<Longrightarrow> line e = n"
  shows "k < length lns \<Longrightarrow>
         at_line (i + k + 1) (scan_lines body [] lns i) = body (lns ! k) (i + k + 1)"
proof (induction lns arbitrary: i k)
  case Nil
  then show ?case by simp
next
  case (Cons ln lns)
  have here: "at_line n (body ln n) = body ln n" for n
    unfolding at_line_def using assms by (intro filter_True) blast
  have other: "at_line n (body l n') = []" if "n \<noteq> n'" for n n' l
    unfolding at_line_def using assms that by (intro filter_False) blast
  have later: "at_line (i + 1) (scan_lines body [] lns (i + 1)) = []"
    unfolding at_line_def using assms
    by (intro filter_False) (auto simp: scan_lines_mem)
  show ?case
  proof (cases k)
    case 0
    with here [of "i + 1"] later show ?thesis
      by (simp add: scan_lines_Cons at_line_def del: scan_lines.simps)
  next
    case (Suc k')
    with Cons.prems have "k' < length lns" by simp
    from Cons.IH [OF this, of "i + 1"] other [of "i + k + 1" "i + 1" ln] Suc show ?thesis
      by (simp add: scan_lines_Cons at_line_def del: scan_lines.simps)
  qed
qed

lemma importName_eq:
  "importName m ln =
     (if truthy (m 1) then the (m 1) else if truthy (m 3) then the (m 3) else trim ln)"
  by (auto simp: importName_def truthy_def split: option.splits)

lemma extractImports_at_line:
  assumes "k < length (split_nl txt)" and "importPatterns lang = Some ps"
  shows "at_line (k + 1) (extractImports txt lang) = import_line ps (split_nl txt ! k) (k + 1)"
  using scan_lines_at_line [of "import_line ps" k "split_nl txt" 0] import_line_props(2) assms
  by (simp add: extractImports_def)

lemma extractTypes_at_line:
  assumes "k < length (split_nl txt)" and "typePatterns lang = Some ps"
  shows "at_line (k + 1) (extractTypes txt lang) = type_line ps (split_nl txt ! k) (k + 1)"
  using scan_lines_at_line [of "type_line ps" k "split_nl txt" 0] type_line_props(2) assms
  by (simp add: extractTypes_def)

lemma extractFunctions_at_line:
  assumes "k < length (split_nl txt)" and "functionPatterns lang = Some ps"
  shows "at_line (k + 1) (extractFunctions txt lang) = function_line lang ps (split_nl txt ! k) (k + 1)"
  using scan_lines_at_line [of "function_line lang ps" k "split_nl txt" 0] function_line_props(2) assms
  by (simp add: extractFunctions_def)

lemma extractClasses_at_line:
  assumes "k < length (split_nl txt)" and "classPatterns lang = Some ps"
  shows "at_line (k + 1) (extractClasses txt lang) = class_line lang ps (split_nl txt ! k) (k + 1)"
  using scan_lines_at_line [of "class_line lang ps" k "split_nl txt" 0] class_line_props(2) assms
  by (simp add: extractClasses_def)

lemma extractVariables_at_line:
  assumes "k < length (split_nl txt)" and "variablePatterns lang = Some ps"
  shows "at_line (k + 1) (extractVariables txt lang) = variable_line lang ps (split_nl txt ! k) (k + 1)"
  using scan_lines_at_line [of "variable_line lang ps" k "split_nl txt" 0] variable_line_props(2) assms
  by (simp add: extractVariables_def)

lemma comment_step_elements:
  assumes "\<And>n t. P (multi_element n t)" and "\<And>n t. P (single_element n t)"
    and "\<forall>e \<in> set (comments s). P e" and "comment_step pats s ln n = Inr s'"
  shows "\<forall>e \<in> set (comments s'). P e"
proof -
  obtain a b c where pats: "pats = (a, b, c)" by (cases pats)
  have blk: "\<forall>e \<in> set (comments (in_block_step c s0 ln)). P e"
    if "\<forall>e \<in> set (comments s0). P e" for s0
    using that assms(1) by (auto simp: in_block_step_def Let_def split: option.splits)
  have sgl: "\<forall>e \<in> set (comments s1). P e"
    if "\<forall>e \<in> set (comments s0). P e" "single_step a s0 ln n = Inr s1" for s0 s1
    using that assms(2) by (auto simp: single_step_def split: option.splits)
  have strt: "\<forall>e \<in> set (comments (start_step b c s0 ln n)). P e"
    if "\<forall>e \<in> set (comments s0). P e" for s0
    using that assms(1) by (auto simp: start_step_def Let_def split: option.splits)
  show ?thesis
  proof (cases "inMultiLineComment s")
    case True
    with assms(4) have "s' = in_block_step c s ln" by (simp add: comment_step_def pats)
    with blk [OF assms(3)] show ?thesis by simp
  next
    case False
    with assms(4) obtain s1 where s1: "single_step a s ln n = Inr s1"
      and s': "s' = start_step b c s1 ln n"
      by (auto simp: comment_step_def pats split: sum.splits)
    from strt [OF sgl [OF assms(3) s1]] s' show ?thesis by simp
  qed
qed

lemma comments_loop_elements:
  assumes "\<And>n t. P (multi_element n t)" and "\<And>n t. P (single_element n t)"
  shows "\<forall>e \<in> set (comments s). P e \<Longrightarrow> comments_loop pats s lns i = Inr s' \<Longrightarrow>
         \<forall>e \<in> set (comments s'). P e"
proof (induction lns arbitrary: s i)
  case Nil
  then show ?case by simp
next
  case (Cons ln lns)
  from Cons.prems(2) obtain s1 where s1: "comment_step pats s ln (i + 1) = Inr s1"
    and rest: "comments_loop pats s1 lns (i + 1) = Inr s'"
    by (auto split: sum.splits)
  from comment_step_elements [of P, OF assms Cons.prems(1) s1]
  have "\<forall>e \<in> set (comments s1). P e" .
  from Cons.IH [OF this rest] show ?case .
qed

lemma extractComments_elements:
  assumes "\<And>n t. P (multi_element n t)" and "\<And>n t. P (single_element n t)"
    and "extractComments txt lang = Inr es"
  shows "\<forall>e \<in> set es. P e"
proof (cases "commentPatterns lang")
  case None
  with assms(3) show ?thesis by (simp add: extractComments_def)
next
  case (Some pats)
  with assms(3) obtain s' where s': "comments_loop pats init_cstate (split_nl txt) 0 = Inr s'"
    and es: "es = comments s'"
    by (auto simp: extractComments_def split: sum.splits)
  have "\<forall>e \<in> set (comments init_cstate). P e" by (simp add: init_cstate_def)
  from comments_loop_elements [of P, OF assms(1,2) this s'] es show ?thesis by simp
qed

lemma names_not_empty:
  "\<forall>e \<in> set (extractFunctions txt lang @ extractClasses txt lang @ extractImports txt lang @
             extractVariables txt lang @ extractTypes txt lang). name e \<noteq> []"
proof -
  have "name e \<noteq> []" if "e \<in> set (extractImports txt lang)" for e
  proof -
    from that obtain ps k m where *: "importPatterns lang = Some ps"
      "first_match ps (split_nl txt ! k) = Some m"
      "e = \<lparr>type = ''import'', name = importName m (split_nl txt ! k), line = k + 1,
             content = trim (split_nl txt ! k)\<rparr>"
      unfolding extractImports_mem by blast
    from matched_line_not_blank [OF *(2)] import_patterns_must [OF *(1)]
    have "trim (split_nl txt ! k) \<noteq> []" by blast
    with *(3) show ?thesis by (simp add: importName_def Let_def)
  qed
  moreover have "name e \<noteq> []" if "e \<in> set (extractFunctions txt lang)" for e
    using that unfolding extractFunctions_mem using push_named_mem by blast
  moreover have "name e \<noteq> []" if "e \<in> set (extractClasses txt lang)" for e
    using that unfolding extractClasses_mem using push_named_mem by blast
  moreover have "name e \<noteq> []" if "e \<in> set (extractVariables txt lang)" for e
    using that unfolding extractVariables_mem using push_named_mem by blast
  moreover have "name e \<noteq> []" if "e \<in> set (extractTypes txt lang)" for e
    using that unfolding extractTypes_mem using push_named_mem by blast
  ultimately show ?thesis by auto
qed

lemma consumes_length: "consumes a b \<Longrightarrow> length (fst (snd b)) \<le> length (fst (snd a))"
  by (auto simp: consumes_def)

lemma rm_nonnull:
  "nonnull r \<Longrightarrow> st' \<in> set (rm r st) \<Longrightarrow> length (fst (snd st')) < length (fst (snd st))"
proof (induction r arbitrary: st st')
  case (Lit w)
  then show ?case
    by (cases st) (auto simp: prefix_def split: if_splits)
next
  case (Set cs)
  then show ?case
    by (cases st) (auto simp: one_char_def split: list.splits if_splits)
next
  case (NotSet cs)
  then show ?case
    by (cases st) (auto simp: one_char_def split: list.splits if_splits)
next
  case Dot
  then show ?case
    by (cases st) (auto simp: one_char_def split: list.splits if_splits)
next
  case (Seq r1 r2)
  from Seq.prems(2) obtain m where m: "m \<in> set (rm r1 st)" "st' \<in> set (rm r2 m)"
    by auto
  from m have le: "length (fst (snd m)) \<le> length (fst (snd st))"
    "length (fst (snd st')) \<le> length (fst (snd m))"
    using rm_consumes consumes_length by blast+
  from Seq.prems(1) consider "nonnull r1" | "nonnull r2" by auto
  then show ?case
  proof cases
    case 1
    from Seq.IH(1) [OF 1 m(1)] le show ?thesis by simp
  next
    case 2
    from Seq.IH(2) [OF 2 m(2)] le show ?thesis by simp
  qed
next
  case (Alt r1 r2)
  from Alt.prems have "nonnull r1" "nonnull r2"
    "st' \<in> set (rm r1 st) \<or> st' \<in> set (rm r2 st)" by simp_all
  with Alt.IH show ?case by blast
next
  case (Grp n r)
  from Grp.prems obtain m where m: "nonnull r" "m \<in> set (rm r st)" "st' = set_group n st m"
    by auto
  from Grp.IH [OF m(1,2)] m(3) show ?case
    by (cases st, cases m) (simp add: set_group_def)
qed simp_all

lemma star_same:
  assumes "\<And>a b. b \<in> set (f a) \<Longrightarrow> g b = g a"
  shows "st' \<in> set (star f n st) \<Longrightarrow> g st' = g st"
proof (induction n arbitrary: st)
  case 0
  then show ?case by simp
next
  case (Suc n)
  from Suc.prems consider "st' = st" | m where "m \<in> set (f st)" "st' \<in> set (star f n m)"
    by auto
  then show ?case
  proof cases
    case 1
    then show ?thesis by simp
  next
    case 2
    from Suc.IH [OF 2(2)] assms [OF 2(1)] show ?thesis by simp
  qed
qed

lemma lazy_same:
  assumes "\<And>a b. b \<in> set (f a) \<Longrightarrow> g b = g a"
  shows "st' \<in> set (lazy f n st) \<Longrightarrow> g st' = g st"
proof (induction n arbitrary: st)
  case 0
  then show ?case by simp
next
  case (Suc n)
  from Suc.prems consider "st' = st" | m where "m \<in> set (f st)" "st' \<in> set (lazy f n m)"
    by auto
  then show ?case
  proof cases
    case 1
    then show ?thesis by simp
  next
    case 2
    from Suc.IH [OF 2(2)] assms [OF 2(1)] show ?thesis by simp
  qed
qed

lemma rm_keeps:
  "keeps n r \<Longrightarrow> st' \<in> set (rm r st) \<Longrightarrow> snd (snd st') n = snd (snd st) n"
proof (induction r arbitrary: st st')
  case (Lit w)
  then show ?case by (cases st) (auto split: if_splits)
next
  case (Set cs)
  then show ?case by (cases st) (auto simp: one_char_def split: list.splits if_splits)
next
  case (NotSet cs)
  then show ?case by (cases st) (auto simp: one_char_def split: list.splits if_splits)
next
  case Dot
  then show ?case by (cases st) (auto simp: one_char_def split: list.splits if_splits)
next
  case (Seq r1 r2)
  from Seq.prems obtain m where m: "m \<in> set (rm r1 st)" "st' \<in> set (rm r2 m)"
    and k: "keeps n r1" "keeps n r2"
    by auto
  from Seq.IH(1) [OF k(1) m(1)] Seq.IH(2) [OF k(2) m(2)] show ?case by simp
next
  case (Alt r1 r2)
  from Alt.prems have "keeps n r1" "keeps n r2"
    "st' \<in> set (rm r1 st) \<or> st' \<in> set (rm r2 st)" by simp_all
  with Alt.IH show ?case by blast
next
  case (Star r)
  from Star.prems have k: "keeps n r"
    and s: "st' \<in> set (star (rm r) (length (fst (snd st))) st)" by simp_all
  from star_same [of "rm r" "\<lambda>st. snd (snd st) n", OF Star.IH [OF k] s] show ?case .
next
  case (Lazy r)
  from Lazy.prems have k: "keeps n r"
    and s: "st' \<in> set (lazy (rm r) (length (fst (snd st))) st)" by simp_all
  from lazy_same [of "rm r" "\<lambda>st. snd (snd st) n", OF Lazy.IH [OF k] s] show ?case .
next
  case (Opt r)
  from Opt.prems have "keeps n r" "st' \<in> set (rm r st) \<or> st' = st" by auto
  with Opt.IH show ?case by blast
next
  case (Grp k r)
  from Grp.prems obtain m where m: "k \<noteq> n" "keeps n r" "m \<in> set (rm r st)"
    "st' = set_group k st m"
    by auto
  from Grp.IH [OF m(2,3)] m(1,4) show ?case
    by (cases st, cases m) (simp add: set_group_def)
next
  case Bol
  then show ?case by (cases st) (auto split: if_splits)
next
  case WordB
  then show ?case by (cases st) (auto split: if_splits)
qed

lemma rm_sets:
  "sets n r \<Longrightarrow> st' \<in> set (rm r st) \<Longrightarrow> truthy (snd (snd st') n)"
proof (induction r arbitrary: st st')
  case (Seq r1 r2)
  from Seq.prems(2) obtain m where m: "m \<in> set (rm r1 st)" "st' \<in> set (rm r2 m)"
    by auto
  from Seq.prems(1) consider "sets n r1" "keeps n r2" | "sets n r2" by auto
  then show ?case
  proof cases
    case 1
    from Seq.IH(1) [OF 1(1) m(1)] rm_keeps [OF 1(2) m(2)] show ?thesis by simp
  next
    case 2
    from Seq.IH(2) [OF 2 m(2)] show ?thesis .
  qed
next
  case (Alt r1 r2)
  from Alt.prems have "sets n r1" "sets n r2"
    "st' \<in> set (rm r1 st) \<or> st' \<in> set (rm r2 st)" by simp_all
  with Alt.IH show ?case by blast
next
  case (Grp k r)
  from Grp.prems(2) obtain m where m: "m \<in> set (rm r st)" "st' = set_group k st m"
    by auto
  show ?case
  proof (cases "k = n")
    case True
    with Grp.prems(1) have "nonnull r" by simp
    from rm_nonnull [OF this m(1)] m(2) True show ?thesis
      by (cases st, cases m) (auto simp: set_group_def truthy_def)
  next
    case False
    with Grp.prems(1) have "sets n r" by simp
    from Grp.IH [OF this m(1)] m(2) False show ?thesis
      by (cases st, cases m) (simp add: set_group_def)
  qed
qed simp_all

lemma js_match_sets:
  assumes "js_match ln r = Some m" and "sets n r"
  shows "truthy (m n)"
proof -
  from assms(1) have "search r [] ln = Some m" by (simp add: js_match_def)
  from search_Some [OF this] obtain b' s' st rest where
    st: "rm r (b', s', Map.empty) = st # rest" and m: "m = snd (snd st)"
    by auto
  from st have "st \<in> set (rm r (b', s', Map.empty))" by simp
  from rm_sets [OF assms(2) this] m show ?thesis by simp
qed

lemma js_match_keeps:
  assumes "js_match ln r = Some m" and "keeps n r"
  shows "m n = None"
proof -
  from assms(1) have "search r [] ln = Some m" by (simp add: js_match_def)
  from search_Some [OF this] obtain b' s' st rest where
    st: "rm r (b', s', Map.empty) = st # rest" and m: "m = snd (snd st)"
    by auto
  from st have "st \<in> set (rm r (b', s', Map.empty))" by simp
  from rm_keeps [OF assms(2) this] m show ?thesis by simp
qed

lemmas pieces_def = cat_def Plus_def js_ident_def py_ident_def py_dotted_def arglist_def
  braced_def ws_def word_def quote_def

lemma function_patterns_groups:
  assumes "functionPatterns lang = Some ps" and "p \<in> set ps"
  shows "if lang = ''java'' then sets 3 p else sets 1 p \<and> keeps 2 p \<and> keeps 3 p"
  using assms by (auto simp: functionPatterns_def pieces_def split: if_splits)

lemma class_patterns_groups:
  assumes "classPatterns lang = Some ps" and "p \<in> set ps"
  shows "if lang = ''java'' then sets 2 p else sets 1 p"
  using assms by (auto simp: classPatterns_def pieces_def split: if_splits)

lemma variable_patterns_groups:
  assumes "variablePatterns lang = Some ps" and "p \<in> set ps"
  shows "if lang = ''java'' then sets 3 p else sets 2 p \<or> (sets 1 p \<and> keeps 2 p)"
  using assms by (auto simp: variablePatterns_def pieces_def split: if_splits)

lemma function_name:
  assumes "functionPatterns lang = Some ps" and "first_match ps ln = Some m"
  shows "functionName lang m =
           (if (lang = ''javascript'' \<or> lang = ''typescript'') \<and> m 1 = Some ''function''
            then Some [] else Some (if lang = ''java'' then the (m 3) else the (m 1)))"
    and "(if lang = ''java'' then the (m 3) else the (m 1)) \<noteq> []"
proof -
  from first_match_in [OF assms(2)] obtain p where p: "p \<in> set ps" "js_match ln p = Some m"
    by blast
  note g = function_patterns_groups [OF assms(1) p(1)]
  from assms(1) have lang: "lang \<in> {''javascript'', ''typescript'', ''python'', ''java'', ''go''}"
    by (auto simp: functionPatterns_def split: if_splits)
  show "(if lang = ''java'' then the (m 3) else the (m 1)) \<noteq> []"
    using g js_match_sets [OF p(2), of 3] js_match_sets [OF p(2), of 1]
    by (auto simp: truthy_def split: if_splits option.splits)
  show "functionName lang m =
           (if (lang = ''javascript'' \<or> lang = ''typescript'') \<and> m 1 = Some ''function''
            then Some [] else Some (if lang = ''java'' then the (m 3) else the (m 1)))"
  proof (cases "lang = ''java''")
    case True
    with g have "truthy (m 3)" using js_match_sets [OF p(2)] by simp
    with True show ?thesis
      by (auto simp: functionName_def truthy_def split: option.splits)
  next
    case False
    with g have "truthy (m 1)" "m 2 = None" "m 3 = None"
      using js_match_sets [OF p(2)] js_match_keeps [OF p(2)] by simp_all
    with False lang show ?thesis
      by (auto simp: functionName_def truthy_def split: option.splits)
  qed
qed

lemma class_name:
  assumes "classPatterns lang = Some ps" and "first_match ps ln = Some m"
  shows "className lang m = Some (if truthy (m 1) then the (m 1) else the (m 2))"
    and "(if truthy (m 1) then the (m 1) else the (m 2)) \<noteq> []"
proof -
  from first_match_in [OF assms(2)] obtain p where p: "p \<in> set ps" "js_match ln p = Some m"
    by blast
  note g = class_patterns_groups [OF assms(1) p(1)]
  from assms(1) have lang: "lang \<in> {''javascript'', ''typescript'', ''python'', ''java'', ''go''}"
    by (auto simp: classPatterns_def split: if_splits)
  from g have t: "truthy (m 1) \<or> truthy (m 2)" "lang \<noteq> ''java'' \<longrightarrow> truthy (m 1)"
    using js_match_sets [OF p(2), of 1] js_match_sets [OF p(2), of 2]
    by (auto split: if_splits)
  from t show "(if truthy (m 1) then the (m 1) else the (m 2)) \<noteq> []"
    by (auto simp: truthy_def split: option.splits)
  from t lang show "className lang m = Some (if truthy (m 1) then the (m 1) else the (m 2))"
    by (auto simp: className_def js_or_def truthy_def split: option.splits)
qed

lemma variable_name:
  assumes "variablePatterns lang = Some ps" and "first_match ps ln = Some m"
  shows "variableName lang m =
           Some (if lang = ''java'' then the (m 3)
                 else if truthy (m 2) then the (m 2) else the (m 1))"
    and "(if lang = ''java'' then the (m 3)
          else if truthy (m 2) then the (m 2) else the (m 1)) \<noteq> []"
proof -
  from first_match_in [OF assms(2)] obtain p where p: "p \<in> set ps" "js_match ln p = Some m"
    by blast
  note g = variable_patterns_groups [OF assms(1) p(1)]
  from assms(1) have lang: "lang \<in> {''javascript'', ''typescript'', ''python'', ''java'', ''go''}"
    by (auto simp: variablePatterns_def split: if_splits)
  from assms(1) p(1) have js: "sets 2 p" if "lang = ''javascript'' \<or> lang = ''typescript''"
    using that by (auto simp: variablePatterns_def pieces_def split: if_splits)
  have t3: "truthy (m 3)" if "lang = ''java''"
    using that g js_match_sets [OF p(2), of 3] by simp
  have t12: "truthy (m 2) \<or> (truthy (m 1) \<and> m 2 = None)" if "lang \<noteq> ''java''"
    using that g js_match_sets [OF p(2), of 1] js_match_sets [OF p(2), of 2]
      js_match_keeps [OF p(2), of 2]
    by auto
  have t2: "truthy (m 2)" if "lang = ''javascript'' \<or> lang = ''typescript''"
    using js [OF that] js_match_sets [OF p(2), of 2] by simp
  show "(if lang = ''java'' then the (m 3)
          else if truthy (m 2) then the (m 2) else the (m 1)) \<noteq> []"
  proof (cases "lang = ''java''")
    case True
    with t3 show ?thesis by (auto simp: truthy_def split: option.splits)
  next
    case False
    with t12 show ?thesis by (auto simp: truthy_def split: option.splits)
  qed
  show "variableName lang m =
           Some (if lang = ''java'' then the (m 3)
                 else if truthy (m 2) then the (m 2) else the (m 1))"
  proof (cases "lang = ''java''")
    case True
    with t3 show ?thesis by (auto simp: variableName_def truthy_def split: option.splits)
  next
    case False
    note nj = this
    show ?thesis
    proof (cases "lang = ''javascript'' \<or> lang = ''typescript''")
      case True
      with t2 nj show ?thesis
        by (auto simp: variableName_def truthy_def split: option.splits)
    next
      case False
      with lang nj have "lang = ''python'' \<or> lang = ''go''" by simp
      with t12 [OF nj] show ?thesis
        by (auto simp: variableName_def js_or_def truthy_def split: option.splits)
    qed
  qed
qed

text \<open>
  C3, as amended. Only \<^verbatim>\<open>extractImports\<close> and \<^verbatim>\<open>extractTypes\<close> fall back to the line:
  they emit exactly one element for every line that a pattern of their table matches,
  named by the capture group that the extractor reads when that is non-empty (group 1,
  else group 3 for imports; group 1 for types) and otherwise by the full trimmed line,
  which is not empty. \<^verbatim>\<open>extractClasses\<close> emits exactly one element for every matched
  line, named by group 1 when that is non-empty and by group 2 otherwise.
  \<^verbatim>\<open>extractVariables\<close> tries no pattern on a line whose trimmed text starts with
  \<^verbatim>\<open>import\<close>, \<^verbatim>\<open>function\<close>, \<^verbatim>\<open>class\<close> or \<^verbatim>\<open>export\<close>, so such a line gives no
  element (\<^verbatim>\<open>export const x = 1\<close> gives none); on every other line that a pattern
  matches it emits exactly one element, named by group 3 for java and else by group 2
  when that is non-empty and by group 1 otherwise. \<^verbatim>\<open>extractFunctions\<close> emits exactly
  one element for every matched line, named by group 3 for java and by group 1 otherwise,
  except that for javascript and typescript a matched line whose group 1 is the word
  \<^verbatim>\<open>function\<close> gives no element. In these three extractors the group that names the
  element is never empty on a matched line. \<^verbatim>\<open>extractComments\<close> never uses the line as
  a name: every comment element is named \<^verbatim>\<open>Comment at line\<close> and its line number, also
  when the capture group of the comment pattern is empty. No element of any extractor has
  an empty name.
\<close>

theorem name_fallback:
  "(ki < length (split_nl src) \<and> importPatterns lang = Some ips \<and>
    first_match ips (split_nl src ! ki) = Some mi \<longrightarrow>
      at_line (ki + 1) (extractImports src lang) =
        [\<lparr>type = ''import'',
          name = (if truthy (mi 1) then the (mi 1) else if truthy (mi 3) then the (mi 3)
                  else trim (split_nl src ! ki)),
          line = ki + 1, content = trim (split_nl src ! ki)\<rparr>] \<and>
      trim (split_nl src ! ki) \<noteq> []) \<and>
   (kt < length (split_nl src) \<and> typePatterns lang = Some tps \<and>
    first_match tps (split_nl src ! kt) = Some mt \<longrightarrow>
      at_line (kt + 1) (extractTypes src lang) =
        [\<lparr>type = ''type'',
          name = (if truthy (mt 1) then the (mt 1) else trim (split_nl src ! kt)),
          line = kt + 1, content = trim (split_nl src ! kt)\<rparr>] \<and>
      trim (split_nl src ! kt) \<noteq> []) \<and>
   (kc < length (split_nl src) \<and> classPatterns lang = Some cps \<and>
    first_match cps (split_nl src ! kc) = Some mc \<longrightarrow>
      at_line (kc + 1) (extractClasses src lang) =
        [\<lparr>type = ''class'', name = (if truthy (mc 1) then the (mc 1) else the (mc 2)),
          line = kc + 1, content = trim (split_nl src ! kc)\<rparr>] \<and>
      (if truthy (mc 1) then the (mc 1) else the (mc 2)) \<noteq> []) \<and>
   (ks < length (split_nl src) \<and> skipped_line (split_nl src ! ks) \<longrightarrow>
      at_line (ks + 1) (extractVariables src lang) = []) \<and>
   (kv < length (split_nl src) \<and> variablePatterns lang = Some vps \<and>
    \<not> skipped_line (split_nl src ! kv) \<and>
    first_match vps (split_nl src ! kv) = Some mv \<longrightarrow>
      at_line (kv + 1) (extractVariables src lang) =
        [\<lparr>type = ''variable'',
          name = (if lang = ''java'' then the (mv 3)
                  else if truthy (mv 2) then the (mv 2) else the (mv 1)),
          line = kv + 1, content = trim (split_nl src ! kv)\<rparr>] \<and>
      (if lang = ''java'' then the (mv 3)
       else if truthy (mv 2) then the (mv 2) else the (mv 1)) \<noteq> []) \<and>
   (kf < length (split_nl src) \<and> functionPatterns lang = Some fps \<and>
    first_match fps (split_nl src ! kf) = Some mf \<longrightarrow>
      at_line (kf + 1) (extractFunctions src lang) =
        (if (lang = ''javascript'' \<or> lang = ''typescript'') \<and> mf 1 = Some ''function''
         then []
         else [\<lparr>type = ''function'',
                 name = (if lang = ''java'' then the (mf 3) else the (mf 1)),
                 line = kf + 1, content = trim (split_nl src ! kf)\<rparr>]) \<and>
      (if lang = ''java'' then the (mf 3) else the (mf 1)) \<noteq> []) \<and>
   (\<forall>e \<in> set (extractFunctions src lang @ extractClasses src lang @ extractImports src lang @
              extractVariables src lang @ extractTypes src lang). name e \<noteq> []) \<and>
   (extractComments src lang = Inr es \<longrightarrow>
      (\<forall>e \<in> set es. name e = ''Comment at line '' @ show_nat (line e) \<and> name e \<noteq> []))"
proof -
  have i: "ki < length (split_nl src) \<and> importPatterns lang = Some ips \<and>
    first_match ips (split_nl src ! ki) = Some mi \<longrightarrow>
      at_line (ki + 1) (extractImports src lang) =
        [\<lparr>type = ''import'',
          name = (if truthy (mi 1) then the (mi 1) else if truthy (mi 3) then the (mi 3)
                  else trim (split_nl src ! ki)),
          line = ki + 1, content = trim (split_nl src ! ki)\<rparr>] \<and>
      trim (split_nl src ! ki) \<noteq> []"
  proof (intro impI, elim conjE)
    assume *: "ki < length (split_nl src)" "importPatterns lang = Some ips"
      "first_match ips (split_nl src ! ki) = Some mi"
    from matched_line_not_blank [OF *(3)] import_patterns_must [OF *(2)]
    have "trim (split_nl src ! ki) \<noteq> []" by blast
    with extractImports_at_line [OF *(1,2)] *(3)
    show "at_line (ki + 1) (extractImports src lang) =
        [\<lparr>type = ''import'',
          name = (if truthy (mi 1) then the (mi 1) else if truthy (mi 3) then the (mi 3)
                  else trim (split_nl src ! ki)),
          line = ki + 1, content = trim (split_nl src ! ki)\<rparr>] \<and>
      trim (split_nl src ! ki) \<noteq> []"
      by (simp add: import_line_def importName_eq)
  qed
  have t: "kt < length (split_nl src) \<and> typePatterns lang = Some tps \<and>
    first_match tps (split_nl src ! kt) = Some mt \<longrightarrow>
      at_line (kt + 1) (extractTypes src lang) =
        [\<lparr>type = ''type'',
          name = (if truthy (mt 1) then the (mt 1) else trim (split_nl src ! kt)),
          line = kt + 1, content = trim (split_nl src ! kt)\<rparr>] \<and>
      trim (split_nl src ! kt) \<noteq> []"
  proof (intro impI, elim conjE)
    assume *: "kt < length (split_nl src)" "typePatterns lang = Some tps"
      "first_match tps (split_nl src ! kt) = Some mt"
    from matched_line_not_blank [OF *(3)] type_patterns_must [OF *(2)]
    have "trim (split_nl src ! kt) \<noteq> []" by blast
    with extractTypes_at_line [OF *(1,2)] *(3)
    show "at_line (kt + 1) (extractTypes src lang) =
        [\<lparr>type = ''type'',
          name = (if truthy (mt 1) then the (mt 1) else trim (split_nl src ! kt)),
          line = kt + 1, content = trim (split_nl src ! kt)\<rparr>] \<and>
      trim (split_nl src ! kt) \<noteq> []"
      by (simp add: type_line_def typeName_def push_named_def truthy_def)
  qed
  have c: "kc < length (split_nl src) \<and> classPatterns lang = Some cps \<and>
    first_match cps (split_nl src ! kc) = Some mc \<longrightarrow>
      at_line (kc + 1) (extractClasses src lang) =
        [\<lparr>type = ''class'', name = (if truthy (mc 1) then the (mc 1) else the (mc 2)),
          line = kc + 1, content = trim (split_nl src ! kc)\<rparr>] \<and>
      (if truthy (mc 1) then the (mc 1) else the (mc 2)) \<noteq> []"
  proof (intro impI, elim conjE)
    assume *: "kc < length (split_nl src)" "classPatterns lang = Some cps"
      "first_match cps (split_nl src ! kc) = Some mc"
    note n = class_name [OF *(2,3)]
    from n have "truthy (className lang mc)" by (simp add: truthy_def)
    with extractClasses_at_line [OF *(1,2)] *(3) n
    show "at_line (kc + 1) (extractClasses src lang) =
        [\<lparr>type = ''class'', name = (if truthy (mc 1) then the (mc 1) else the (mc 2)),
          line = kc + 1, content = trim (split_nl src ! kc)\<rparr>] \<and>
      (if truthy (mc 1) then the (mc 1) else the (mc 2)) \<noteq> []"
      by (simp add: class_line_def push_named_def)
  qed
  have s: "ks < length (split_nl src) \<and> skipped_line (split_nl src ! ks) \<longrightarrow>
      at_line (ks + 1) (extractVariables src lang) = []"
  proof (intro impI, elim conjE)
    assume *: "ks < length (split_nl src)" "skipped_line (split_nl src ! ks)"
    show "at_line (ks + 1) (extractVariables src lang) = []"
    proof (cases "variablePatterns lang")
      case None
      then show ?thesis by (simp add: extractVariables_def at_line_def)
    next
      case (Some ps)
      from extractVariables_at_line [OF *(1) Some] *(2) show ?thesis
        by (simp add: variable_line_def)
    qed
  qed
  have v: "kv < length (split_nl src) \<and> variablePatterns lang = Some vps \<and>
    \<not> skipped_line (split_nl src ! kv) \<and>
    first_match vps (split_nl src ! kv) = Some mv \<longrightarrow>
      at_line (kv + 1) (extractVariables src lang) =
        [\<lparr>type = ''variable'',
          name = (if lang = ''java'' then the (mv 3)
                  else if truthy (mv 2) then the (mv 2) else the (mv 1)),
          line = kv + 1, content = trim (split_nl src ! kv)\<rparr>] \<and>
      (if lang = ''java'' then the (mv 3)
       else if truthy (mv 2) then the (mv 2) else the (mv 1)) \<noteq> []"
  proof (intro impI, elim conjE)
    assume *: "kv < length (split_nl src)" "variablePatterns lang = Some vps"
      "\<not> skipped_line (split_nl src ! kv)" "first_match vps (split_nl src ! kv) = Some mv"
    note n = variable_name [OF *(2,4)]
    from n have "truthy (variableName lang mv)" by (simp add: truthy_def)
    with extractVariables_at_line [OF *(1,2)] *(3,4) n
    show "at_line (kv + 1) (extractVariables src lang) =
        [\<lparr>type = ''variable'',
          name = (if lang = ''java'' then the (mv 3)
                  else if truthy (mv 2) then the (mv 2) else the (mv 1)),
          line = kv + 1, content = trim (split_nl src ! kv)\<rparr>] \<and>
      (if lang = ''java'' then the (mv 3)
       else if truthy (mv 2) then the (mv 2) else the (mv 1)) \<noteq> []"
      by (simp add: variable_line_def push_named_def)
  qed
  have f: "kf < length (split_nl src) \<and> functionPatterns lang = Some fps \<and>
    first_match fps (split_nl src ! kf) = Some mf \<longrightarrow>
      at_line (kf + 1) (extractFunctions src lang) =
        (if (lang = ''javascript'' \<or> lang = ''typescript'') \<and> mf 1 = Some ''function''
         then []
         else [\<lparr>type = ''function'',
                 name = (if lang = ''java'' then the (mf 3) else the (mf 1)),
                 line = kf + 1, content = trim (split_nl src ! kf)\<rparr>]) \<and>
      (if lang = ''java'' then the (mf 3) else the (mf 1)) \<noteq> []"
  proof (intro impI, elim conjE)
    assume *: "kf < length (split_nl src)" "functionPatterns lang = Some fps"
      "first_match fps (split_nl src ! kf) = Some mf"
    note n = function_name [OF *(2,3)]
    from extractFunctions_at_line [OF *(1,2)] *(3)
    have "at_line (kf + 1) (extractFunctions src lang) =
        push_named ''function'' (functionName lang mf) (split_nl src ! kf) (kf + 1)"
      by (simp add: function_line_def)
    also have "\<dots> =
        (if (lang = ''javascript'' \<or> lang = ''typescript'') \<and> mf 1 = Some ''function''
         then []
         else [\<lparr>type = ''function'',
                 name = (if lang = ''java'' then the (mf 3) else the (mf 1)),
                 line = kf + 1, content = trim (split_nl src ! kf)\<rparr>])"
      unfolding n(1) using n(2) by (simp add: push_named_def truthy_def)
    finally show "at_line (kf + 1) (extractFunctions src lang) =
        (if (lang = ''javascript'' \<or> lang = ''typescript'') \<and> mf 1 = Some ''function''
         then []
         else [\<lparr>type = ''function'',
                 name = (if lang = ''java'' then the (mf 3) else the (mf 1)),
                 line = kf + 1, content = trim (split_nl src ! kf)\<rparr>]) \<and>
      (if lang = ''java'' then the (mf 3) else the (mf 1)) \<noteq> []"
      using n(2) by simp
  qed
  have k: "extractComments src lang = Inr es \<longrightarrow>
      (\<forall>e \<in> set es. name e = ''Comment at line '' @ show_nat (line e) \<and> name e \<noteq> [])"
    using extractComments_elements
      [of "\<lambda>e. name e = ''Comment at line '' @ show_nat (line e) \<and> name e \<noteq> []" src lang es]
    by (simp add: multi_element_def single_element_def)
  from i t c s v f names_not_empty [of src lang] k show ?thesis
    by (intro conjI)
qed

theorem name_fallback_witness:
  "(1::nat) < length (split_nl sample_source) \<and>
   importPatterns ''javascript'' = Some (the (importPatterns ''javascript'')) \<and>
   first_match (the (importPatterns ''javascript'')) (split_nl sample_source ! 1) \<noteq> None \<and>
   at_line 2 (extractImports sample_source ''javascript'') =
     [\<lparr>type = ''import'', name = ''export { a }'', line = 2, content = ''export { a }''\<rparr>] \<and>
   (0::nat) < length (split_nl sample_source) \<and>
   typePatterns ''javascript'' = Some (the (typePatterns ''javascript'')) \<and>
   first_match (the (typePatterns ''javascript'')) (split_nl sample_source ! 0) \<noteq> None \<and>
   at_line 1 (extractTypes sample_source ''javascript'') =
     [\<lparr>type = ''type'', name = ''N'', line = 1, content = ''// @typedef {T} N''\<rparr>] \<and>
   (2::nat) < length (split_nl sample_source) \<and>
   classPatterns ''javascript'' = Some (the (classPatterns ''javascript'')) \<and>
   first_match (the (classPatterns ''javascript'')) (split_nl sample_source ! 2) \<noteq> None \<and>
   at_line 3 (extractClasses sample_source ''javascript'') =
     [\<lparr>type = ''class'', name = ''A'', line = 3, content = ''class A {''\<rparr>] \<and>
   skipped_line (split_nl sample_source ! 1) \<and>
   at_line 2 (extractVariables sample_source ''javascript'') = [] \<and>
   (4::nat) < length (split_nl sample_source) \<and>
   variablePatterns ''javascript'' = Some (the (variablePatterns ''javascript'')) \<and>
   \<not> skipped_line (split_nl sample_source ! 4) \<and>
   first_match (the (variablePatterns ''javascript'')) (split_nl sample_source ! 4) \<noteq> None \<and>
   at_line 5 (extractVariables sample_source ''javascript'') =
     [\<lparr>type = ''variable'', name = ''x'', line = 5, content = ''const x = 1''\<rparr>] \<and>
   (3::nat) < length (split_nl sample_source) \<and>
   functionPatterns ''javascript'' = Some (the (functionPatterns ''javascript'')) \<and>
   first_match (the (functionPatterns ''javascript'')) (split_nl sample_source ! 3) \<noteq> None \<and>
   at_line 4 (extractFunctions sample_source ''javascript'') =
     [\<lparr>type = ''function'', name = ''f'', line = 4, content = ''function f() {''\<rparr>] \<and>
   extractComments sample_source ''javascript'' = Inr [single_element 1 ''@typedef {T} N''] \<and>
   name (single_element 1 ''@typedef {T} N'') = ''Comment at line 1'' \<and>
   (0::nat) < length (split_nl ''return function (x) {'') \<and>
   first_match (the (functionPatterns ''javascript'')) (split_nl ''return function (x) {'' ! 0)
     \<noteq> None \<and>
   at_line 1 (extractFunctions ''return function (x) {'' ''javascript'') = [] \<and>
   (0::nat) < length (split_nl ''export const x = 1'') \<and>
   skipped_line (split_nl ''export const x = 1'' ! 0) \<and>
   at_line 1 (extractVariables ''export const x = 1'' ''javascript'') = []"
proof -
  let ?ips = "the (importPatterns ''javascript'')"
  let ?tps = "the (typePatterns ''javascript'')"
  let ?fps = "the (functionPatterns ''javascript'')"
  let ?cps = "the (classPatterns ''javascript'')"
  let ?vps = "the (variablePatterns ''javascript'')"
  let ?mi = "the (first_match ?ips (split_nl sample_source ! 1))"
  let ?mt = "the (first_match ?tps (split_nl sample_source ! 0))"
  let ?mf = "the (first_match ?fps (split_nl sample_source ! 3))"
  let ?mc = "the (first_match ?cps (split_nl sample_source ! 2))"
  let ?mv = "the (first_match ?vps (split_nl sample_source ! 4))"
  let ?md = "the (first_match ?fps (split_nl ''return function (x) {'' ! 0))"
  have len: "length (split_nl sample_source) = 5" by code_simp
  have tabs: "importPatterns ''javascript'' = Some ?ips" "typePatterns ''javascript'' = Some ?tps"
    "functionPatterns ''javascript'' = Some ?fps" "classPatterns ''javascript'' = Some ?cps"
    "variablePatterns ''javascript'' = Some ?vps"
    by (simp_all add: importPatterns_def typePatterns_def functionPatterns_def classPatterns_def
        variablePatterns_def)
  have ni: "first_match ?ips (split_nl sample_source ! 1) \<noteq> None" by code_simp
  have nt: "first_match ?tps (split_nl sample_source ! 0) \<noteq> None" by code_simp
  have nf: "first_match ?fps (split_nl sample_source ! 3) \<noteq> None" by code_simp
  have nc: "first_match ?cps (split_nl sample_source ! 2) \<noteq> None" by code_simp
  have nv: "first_match ?vps (split_nl sample_source ! 4) \<noteq> None" by code_simp
  have nd: "first_match ?fps (split_nl ''return function (x) {'' ! 0) \<noteq> None" by code_simp
  have sk: "\<not> skipped_line (split_nl sample_source ! 4)" by code_simp
  have sk1: "skipped_line (split_nl sample_source ! 1)" by code_simp
  have sk2: "skipped_line (split_nl ''export const x = 1'' ! 0)" by code_simp
  have vi: "\<not> truthy (?mi 1)" "\<not> truthy (?mi 3)"
    "trim (split_nl sample_source ! 1) = ''export { a }''"
    by code_simp+
  have vt: "truthy (?mt 1)" "the (?mt 1) = ''N''"
    "trim (split_nl sample_source ! 0) = ''// @typedef {T} N''"
    by code_simp+
  have vf: "?mf 1 \<noteq> Some ''function''" "the (?mf 1) = ''f''"
    "trim (split_nl sample_source ! 3) = ''function f() {''"
    by code_simp+
  have vc: "truthy (?mc 1)" "the (?mc 1) = ''A''"
    "trim (split_nl sample_source ! 2) = ''class A {''"
    by code_simp+
  have vv: "truthy (?mv 2)" "the (?mv 2) = ''x''"
    "trim (split_nl sample_source ! 4) = ''const x = 1''"
    by code_simp+
  have vd: "?md 1 = Some ''function''"
    by code_simp
  have k: "extractComments sample_source ''javascript'' = Inr [single_element 1 ''@typedef {T} N'']"
    by code_simp
  note t = name_fallback [of 1 sample_source "''javascript''" ?ips ?mi 0 ?tps ?mt 2 ?cps ?mc
      1 4 ?vps ?mv 3 ?fps ?mf "[single_element 1 ''@typedef {T} N'']"]
  note td = name_fallback [of _ "''return function (x) {''" "''javascript''" _ _ _ _ _ _ _ _
      _ _ _ _ 0 ?fps ?md]
  note ts = name_fallback [of _ "''export const x = 1''" "''javascript''" _ _ _ _ _ _ _ _ 0]
  have li: "(1::nat) < length (split_nl sample_source)" and lt: "(0::nat) < length (split_nl sample_source)"
    and lf: "(3::nat) < length (split_nl sample_source)" and lc: "(2::nat) < length (split_nl sample_source)"
    and lv: "(4::nat) < length (split_nl sample_source)"
    by (simp_all add: len)
  have ld: "(0::nat) < length (split_nl ''return function (x) {'')" by code_simp
  have ls: "(0::nat) < length (split_nl ''export const x = 1'')" by code_simp
  have pi: "1 < length (split_nl sample_source) \<and> importPatterns ''javascript'' = Some ?ips \<and>
      first_match ?ips (split_nl sample_source ! 1) = Some ?mi"
    using li tabs(1) ni by simp
  have pt: "0 < length (split_nl sample_source) \<and> typePatterns ''javascript'' = Some ?tps \<and>
      first_match ?tps (split_nl sample_source ! 0) = Some ?mt"
    using lt tabs(2) nt by simp
  have pf: "3 < length (split_nl sample_source) \<and> functionPatterns ''javascript'' = Some ?fps \<and>
      first_match ?fps (split_nl sample_source ! 3) = Some ?mf"
    using lf tabs(3) nf by simp
  have pc: "2 < length (split_nl sample_source) \<and> classPatterns ''javascript'' = Some ?cps \<and>
      first_match ?cps (split_nl sample_source ! 2) = Some ?mc"
    using lc tabs(4) nc by simp
  have ps: "1 < length (split_nl sample_source) \<and> skipped_line (split_nl sample_source ! 1)"
    using li sk1 by simp
  have pv: "4 < length (split_nl sample_source) \<and> variablePatterns ''javascript'' = Some ?vps \<and>
      \<not> skipped_line (split_nl sample_source ! 4) \<and>
      first_match ?vps (split_nl sample_source ! 4) = Some ?mv"
    using lv tabs(5) sk nv by simp
  have pd: "0 < length (split_nl ''return function (x) {'') \<and>
      functionPatterns ''javascript'' = Some ?fps \<and>
      first_match ?fps (split_nl ''return function (x) {'' ! 0) = Some ?md"
    using ld tabs(3) nd by simp
  have pss: "0 < length (split_nl ''export const x = 1'') \<and>
      skipped_line (split_nl ''export const x = 1'' ! 0)"
    using ls sk2 by simp
  have ri: "at_line 2 (extractImports sample_source ''javascript'') =
     [\<lparr>type = ''import'', name = ''export { a }'', line = 2, content = ''export { a }''\<rparr>]"
    using mp [OF t [THEN conjunct1] pi] vi by (simp add: numeral_2_eq_2)
  have rt: "at_line 1 (extractTypes sample_source ''javascript'') =
     [\<lparr>type = ''type'', name = ''N'', line = 1, content = ''// @typedef {T} N''\<rparr>]"
    using mp [OF t [THEN conjunct2, THEN conjunct1] pt] vt by simp
  have rc: "at_line 3 (extractClasses sample_source ''javascript'') =
     [\<lparr>type = ''class'', name = ''A'', line = 3, content = ''class A {''\<rparr>]"
    using mp [OF t [THEN conjunct2, THEN conjunct2, THEN conjunct1] pc] vc
    by simp
  have rs: "at_line 2 (extractVariables sample_source ''javascript'') = []"
    using mp [OF t [THEN conjunct2, THEN conjunct2, THEN conjunct2, THEN conjunct1] ps]
    by (simp add: numeral_2_eq_2)
  have rv: "at_line 5 (extractVariables sample_source ''javascript'') =
     [\<lparr>type = ''variable'', name = ''x'', line = 5, content = ''const x = 1''\<rparr>]"
    using mp [OF t [THEN conjunct2, THEN conjunct2, THEN conjunct2, THEN conjunct2,
          THEN conjunct1] pv] vv
    by simp
  have rf: "at_line 4 (extractFunctions sample_source ''javascript'') =
     [\<lparr>type = ''function'', name = ''f'', line = 4, content = ''function f() {''\<rparr>]"
    using mp [OF t [THEN conjunct2, THEN conjunct2, THEN conjunct2, THEN conjunct2,
          THEN conjunct2, THEN conjunct1] pf] vf
    by simp
  have rd: "at_line 1 (extractFunctions ''return function (x) {'' ''javascript'') = []"
    using mp [OF td [THEN conjunct2, THEN conjunct2, THEN conjunct2, THEN conjunct2,
          THEN conjunct2, THEN conjunct1] pd] vd
    by simp
  have rss: "at_line 1 (extractVariables ''export const x = 1'' ''javascript'') = []"
    using mp [OF ts [THEN conjunct2, THEN conjunct2, THEN conjunct2, THEN conjunct1] pss]
    by simp
  have sn: "show_nat (Suc 0) = ''1''"
    by code_simp
  have nm: "name (single_element 1 ''@typedef {T} N'') = ''Comment at line 1''"
    using mp [OF t [THEN conjunct2, THEN conjunct2, THEN conjunct2, THEN conjunct2,
          THEN conjunct2, THEN conjunct2, THEN conjunct2] k]
    by (simp add: sn)
  show ?thesis
    by (intro conjI li tabs ni ri lt nt rt lc nc rc sk1 rs lv sk nv rv lf nf rf k nm ld nd rd
        ls sk2 rss)
qed

text \<open>
  C3 as stated fails. The single-line pattern of javascript matches the line \<^verbatim>\<open>//\<close> with
  an empty capture group, and the element that is emitted is named \<^verbatim>\<open>Comment at line 1\<close>,
  not by the trimmed line. The fourth function pattern of javascript matches
  \<^verbatim>\<open>return function (x) {\<close>, and the line is dropped. The variable pattern of javascript
  matches \<^verbatim>\<open>export const x = 1\<close>, and the line is dropped.
\<close>

theorem name_fallback_counterexample:
  "js_match ''//'' (fst (the (commentPatterns ''javascript''))) \<noteq> None \<and>
   the (js_match ''//'' (fst (the (commentPatterns ''javascript'')))) 1 = Some [] \<and>
   extractComments ''//'' ''javascript'' =
     Inr [\<lparr>type = ''single-line-comment'', name = ''Comment at line 1'', line = 1,
           content = []\<rparr>] \<and>
   trim ''//'' = ''//'' \<and>
   first_match (the (functionPatterns ''javascript'')) ''return function (x) {'' \<noteq> None \<and>
   the (first_match (the (functionPatterns ''javascript'')) ''return function (x) {'') 1 =
     Some ''function'' \<and>
   extractFunctions ''return function (x) {'' ''javascript'' = [] \<and>
   first_match (the (variablePatterns ''javascript'')) ''export const x = 1'' \<noteq> None \<and>
   the (first_match (the (variablePatterns ''javascript'')) ''export const x = 1'') 2 =
     Some ''x'' \<and>
   extractVariables ''export const x = 1'' ''javascript'' = []"
  by code_simp

subsection \<open>Import blocks of Go\<close>

lemma star_ws_spaces:
  "st' \<in> set (star (rm ws) n st) \<Longrightarrow>
   \<exists>w. fst (snd st) = w @ fst (snd st') \<and> (\<forall>c \<in> set w. is_space c)"
proof (induction n arbitrary: st)
  case 0
  then show ?case by simp
next
  case (Suc n)
  from Suc.prems consider "st' = st" | m where "m \<in> set (rm ws st)" "st' \<in> set (star (rm ws) n m)"
    by auto
  then show ?case
  proof cases
    case 1
    then show ?thesis by simp
  next
    case 2
    from 2(1) obtain x where x: "fst (snd st) = x # fst (snd m)" "is_space x"
      by (cases st) (auto simp: ws_def one_char_def split: list.splits if_splits)
    from Suc.IH [OF 2(2)] obtain w where "fst (snd m) = w @ fst (snd st')" "\<forall>c \<in> set w. is_space c"
      by blast
    with x have "fst (snd st) = (x # w) @ fst (snd st')" "\<forall>c \<in> set (x # w). is_space c"
      by simp_all
    then show ?thesis by blast
  qed
qed

lemma plus_ws_spaces:
  assumes "st' \<in> set (rm (Plus ws) st)"
  shows "\<exists>w. w \<noteq> [] \<and> fst (snd st) = w @ fst (snd st') \<and> (\<forall>c \<in> set w. is_space c)"
proof -
  from assms obtain m where m: "m \<in> set (rm ws st)"
    and s: "st' \<in> set (star (rm ws) (length (fst (snd m))) m)"
    by (auto simp: Plus_def)
  from m obtain x where x: "fst (snd st) = x # fst (snd m)" "is_space x"
    by (cases st) (auto simp: ws_def one_char_def split: list.splits if_splits)
  from star_ws_spaces [OF s] obtain w where "fst (snd m) = w @ fst (snd st')" "\<forall>c \<in> set w. is_space c"
    by blast
  with x have "x # w \<noteq> []" "fst (snd st) = (x # w) @ fst (snd st')" "\<forall>c \<in> set (x # w). is_space c"
    by simp_all
  then show ?thesis by blast
qed

lemma import_then_suffix: "import_then P v \<Longrightarrow> import_then P (u @ v)"
proof (induction u)
  case Nil
  then show ?case by simp
next
  case (Cons x u)
  then have "import_then P (u @ v)" by simp
  then show ?case by (simp del: prefix_Cons)
 qed

lemma import_then_here:
  assumes "w \<noteq> []" and "\<forall>c \<in> set w. is_space c" and "P c" and "\<not> is_space c"
  shows "import_then P (''import'' @ w @ c # t)"
proof -
  from assms(1,2) obtain x w' where w: "w = x # w'" "is_space x" by (cases w) auto
  have "dropWhile is_space (w @ c # t) = c # t"
    using assms(2,4) by (simp add: dropWhile_append)
  with w assms(3) show ?thesis by simp
qed

lemma js_match_import_then:
  assumes "js_match ln (Seq (Lit ''import'') (Seq (Plus ws) r)) = Some m"
    and "\<And>st. rm r st \<noteq> [] \<Longrightarrow> \<exists>c t. fst (snd st) = c # t \<and> P c"
    and "\<And>c. P c \<Longrightarrow> \<not> is_space c"
  shows "import_then P ln"
proof -
  from assms(1) have "search (Seq (Lit ''import'') (Seq (Plus ws) r)) [] ln = Some m"
    by (simp add: js_match_def)
  from search_Some [OF this] obtain b' s' st rest where
    ln: "rev b' @ s' = ln"
    and st: "rm (Seq (Lit ''import'') (Seq (Plus ws) r)) (b', s', Map.empty) = st # rest"
    by auto
  let ?X = "(rev ''import'' @ b', drop (length ''import'') s', Map.empty :: captures)"
  from st have p: "prefix ''import'' s'"
    by (auto split: if_splits)
  with st have "concat (map (rm r) (rm (Plus ws) ?X)) \<noteq> []"
    by simp
  then obtain m1 where m1: "m1 \<in> set (rm (Plus ws) ?X)" "rm r m1 \<noteq> []"
    by auto
  from plus_ws_spaces [OF m1(1)] obtain w where
    w: "w \<noteq> []" "drop (length ''import'') s' = w @ fst (snd m1)" "\<forall>c \<in> set w. is_space c"
    by auto
  from assms(2) [OF m1(2)] obtain c t where c: "fst (snd m1) = c # t" "P c"
    by blast
  from p w(2) c(1) have "s' = ''import'' @ w @ c # t"
    by (metis prefix_def append_eq_conv_conj)
  moreover have "import_then P (''import'' @ w @ c # t)"
    using w(1,3) c(2) assms(3) by (intro import_then_here) auto
  ultimately have "import_then P s'" by simp
  then have "import_then P (rev b' @ s')" by (rule import_then_suffix)
  with ln show ?thesis by simp
qed

lemma go_import_patterns:
  "importPatterns ''go'' =
     Some [Seq (Lit ''import'') (Seq (Plus ws) (cat [quote, Grp 1 (Star Dot), quote])),
           Seq (Lit ''import'') (Seq (Plus ws) (cat [arglist]))]"
  by (simp add: importPatterns_def cat_def)

lemma plain_go_line_no_match:
  assumes "plain_go_line ln"
  shows "first_match (the (importPatterns ''go'')) ln = None"
proof -
  let ?p1 = "Seq (Lit ''import'') (Seq (Plus ws) (cat [quote, Grp 1 (Star Dot), quote]))"
  let ?p2 = "Seq (Lit ''import'') (Seq (Plus ws) (cat [arglist]))"
  have q: "\<exists>c t. fst (snd st) = c # t \<and> is_quote c"
    if "rm (cat [quote, Grp 1 (Star Dot), quote]) st \<noteq> []" for st
  proof -
    from that have "rm quote st \<noteq> []"
      by (cases "rm quote st") (simp_all add: cat_def)
    then show ?thesis
      by (cases st) (auto simp: quote_def one_char_def is_quote_def split: list.splits if_splits)
  qed
  have a: "\<exists>c t. fst (snd st) = c # t \<and> c = CHR ''(''"
    if "rm (cat [arglist]) st \<noteq> []" for st
  proof -
    from that have "rm (Lit ''('') st \<noteq> []"
      by (cases "rm (Lit ''('') st") (simp_all add: cat_def arglist_def del: rm.simps(1))
    then show ?thesis
      by (cases st) (auto simp: prefix_def split: if_splits)
  qed
  have "js_match ln ?p1 = None"
  proof (cases "js_match ln ?p1")
    case (Some m)
    have "\<not> is_space c" if "is_quote c" for c
      using that by (auto simp: is_quote_def is_space_def)
    from js_match_import_then [OF Some q this] have "import_then is_quote ln" .
    with assms show ?thesis by (simp add: plain_go_line_def)
  qed simp
  moreover have "js_match ln ?p2 = None"
  proof (cases "js_match ln ?p2")
    case (Some m)
    have "\<not> is_space c" if "c = CHR ''(''" for c
      using that by (simp add: is_space_def)
    from js_match_import_then [OF Some a this] have "import_then (\<lambda>c. c = CHR ''('') ln" .
    moreover have "must (\<lambda>c. c = CHR '')'') ?p2"
      by (simp add: cat_def arglist_def)
    from js_match_must [OF Some this] have "CHR '')'' \<in> set ln" by simp
    ultimately show ?thesis using assms by (simp add: plain_go_line_def)
  qed simp
  ultimately show ?thesis
    by (simp add: go_import_patterns)
qed

text \<open>
  C10, as amended. For Go, \<^verbatim>\<open>extractImports\<close> looks at one line at a time, and a line
  gives an element only when the line by itself holds \<^verbatim>\<open>import\<close>, white space and then a
  quoted text or a parenthesis that is closed on the same line. So the lines of a
  parenthesized import block give no element, wherever the block stands in the text,
  when no line of the block has \<^verbatim>\<open>import\<close> and white space followed by a quote, and none
  has both \<^verbatim>\<open>import\<close> and white space followed by \<^verbatim>\<open>(\<close> and a \<^verbatim>\<open>)\<close>: a first line
  \<^verbatim>\<open>import (\<close> without a closing parenthesis, quoted package paths, with or without a
  comment, and the closing \<^verbatim>\<open>)\<close>.
\<close>

theorem go_import_block_ignored:
  assumes "split_nl txt = pre @ block @ post"
    and "\<forall>ln \<in> set block. plain_go_line ln"
  shows "\<forall>e \<in> set (extractImports txt ''go'').
           line e \<le> length pre \<or> length pre + length block < line e"
proof
  fix e
  assume "e \<in> set (extractImports txt ''go'')"
  then obtain ps k m where ps: "importPatterns ''go'' = Some ps"
    and k: "k < length (split_nl txt)" and m: "first_match ps (split_nl txt ! k) = Some m"
    and e: "e = \<lparr>type = ''import'', name = importName m (split_nl txt ! k), line = k + 1,
                 content = trim (split_nl txt ! k)\<rparr>"
    unfolding extractImports_mem by blast
  have "k < length pre \<or> length pre + length block \<le> k"
  proof (rule ccontr)
    assume "\<not> (k < length pre \<or> length pre + length block \<le> k)"
    then have range: "length pre \<le> k" "k - length pre < length block" by arith+
    then have "split_nl txt ! k = block ! (k - length pre)"
      by (simp add: assms(1) nth_append)
    moreover have "block ! (k - length pre) \<in> set block"
      using range(2) by simp
    ultimately have "first_match ps (split_nl txt ! k) = None"
      using plain_go_line_no_match assms(2) ps by simp
    with m show False by simp
  qed
  with e show "line e \<le> length pre \<or> length pre + length block < line e"
    by auto
qed

theorem go_import_block_ignored_witness:
  "split_nl sample_go =
     [] @ [''import ('',
           ''  '' @ [CHR 0x22] @ ''fmt'' @ [CHR 0x22] @ '' // import the driver'', '')''] @
     [''import '' @ [CHR 0x22] @ ''os'' @ [CHR 0x22]] \<and>
   list_all plain_go_line
     [''import ('', ''  '' @ [CHR 0x22] @ ''fmt'' @ [CHR 0x22] @ '' // import the driver'', '')''] \<and>
   extractImports sample_go ''go'' =
     [\<lparr>type = ''import'', name = ''os'', line = 4,
       content = ''import '' @ [CHR 0x22] @ ''os'' @ [CHR 0x22]\<rparr>] \<and>
   list_all (\<lambda>e. line e \<le> 0 \<or> 3 < line e) (extractImports sample_go ''go'')"
proof -
  let ?block = "[''import ('',
      ''  '' @ [CHR 0x22] @ ''fmt'' @ [CHR 0x22] @ '' // import the driver'', '')'']"
  have lines: "split_nl sample_go = [] @ ?block @ [''import '' @ [CHR 0x22] @ ''os'' @ [CHR 0x22]]"
    by code_simp
  have res: "extractImports sample_go ''go'' =
     [\<lparr>type = ''import'', name = ''os'', line = 4,
       content = ''import '' @ [CHR 0x22] @ ''os'' @ [CHR 0x22]\<rparr>]"
    by code_simp
  have plain: "list_all plain_go_line ?block"
    by code_simp
  from go_import_block_ignored [OF lines plain [unfolded list_all_iff]]
  have out: "list_all (\<lambda>e. line e \<le> 0 \<or> 3 < line e) (extractImports sample_go ''go'')"
    unfolding list_all_iff by (simp add: numeral_3_eq_3)
  show ?thesis
    by (intro conjI lines plain res out)
qed

text \<open>
  C10 as stated fails: the block opens on line 1 and closes on line 3, but its first line
  closes a parenthesis in a comment, the second pattern matches that line, and an element
  is emitted for it.
\<close>

theorem go_import_block_counterexample:
  "split_nl sample_go_header =
     [''import ( // (std)'', ''  '' @ [CHR 0x22] @ ''fmt'' @ [CHR 0x22], '')''] \<and>
   extractImports sample_go_header ''go'' =
     [\<lparr>type = ''import'', name = ''import ( // (std)'', line = 1,
       content = ''import ( // (std)''\<rparr>]"
  by code_simp

subsection \<open>The comment patterns of the C-style languages\<close>

lemma images_of_one: "xs \<noteq> [] \<Longrightarrow> concat (map f xs) = [] \<Longrightarrow> f (hd xs) = []"
  by (cases xs) simp_all

lemma lazy_first: "\<exists>tl. lazy f n st = st # tl"
  by (cases n) simp_all

lemma end_pattern_iff: "js_match ln c_multiLineCommentEnd \<noteq> None \<longleftrightarrow> sublist ''*/'' ln"
proof
  assume "js_match ln c_multiLineCommentEnd \<noteq> None"
  then obtain m where "search c_multiLineCommentEnd [] ln = Some m"
    by (auto simp: js_match_def)
  from search_Some [OF this] obtain b' s' st rest where
    ln: "rev b' @ s' = ln" and st: "rm c_multiLineCommentEnd (b', s', Map.empty) = st # rest"
    by auto
  from st have "st \<in> set (rm c_multiLineCommentEnd (b', s', Map.empty))" by simp
  then obtain m1 where m1: "m1 \<in> set (rm (Grp 1 (Lazy Dot)) (b', s', Map.empty))"
    and l: "st \<in> set (rm (Lit ''*/'') m1)"
    by (auto simp: c_multiLineCommentEnd_def cat_def simp del: rm.simps(1,10))
  from rm_consumes [OF m1] obtain w where w: "s' = w @ fst (snd m1)"
    by (auto simp: consumes_def)
  from l have "prefix ''*/'' (fst (snd m1))"
    by (cases m1) (auto split: if_splits)
  then obtain t where "fst (snd m1) = ''*/'' @ t"
    by (auto simp: prefix_def)
  with w ln have "ln = (rev b' @ w) @ ''*/'' @ t" by simp
  then show "sublist ''*/'' ln" unfolding sublist_def by blast
next
  assume "sublist ''*/'' ln"
  then obtain u t where ln: "ln = u @ ''*/'' @ t" unfolding sublist_def by blast
  let ?X = "(rev u @ [], ''*/'' @ t, Map.empty :: captures)"
  obtain tl where "lazy (rm Dot) (length (''*/'' @ t)) ?X = ?X # tl"
    using lazy_first by blast
  then have "rm c_multiLineCommentEnd ?X \<noteq> []"
    by (simp add: c_multiLineCommentEnd_def cat_def set_group_def)
  from search_found [OF this] show "js_match ln c_multiLineCommentEnd \<noteq> None"
    by (simp add: js_match_def ln)
qed

lemma star_dot_first:
  "length s \<le> n \<Longrightarrow>
   \<exists>tl. star (rm Dot) n (b, s, k) =
     (rev (takeWhile (\<lambda>c. \<not> is_line_terminator c) s) @ b,
      dropWhile (\<lambda>c. \<not> is_line_terminator c) s, k) # tl"
proof (induction s arbitrary: n b)
  case Nil
  have "rm Dot (b, [], k) = []" by (simp add: one_char_def)
  then show ?case by (cases n) (simp_all del: rm.simps)
next
  case (Cons x xs)
  then obtain n' where n: "n = Suc n'" "length xs \<le> n'" by (cases n) simp_all
  show ?case
  proof (cases "is_line_terminator x")
    case True
    then have "rm Dot (b, x # xs, k) = []" by (simp add: one_char_def)
    with True show ?thesis by (simp add: n del: rm.simps)
  next
    case False
    then have step: "rm Dot (b, x # xs, k) = [(x # b, xs, k)]" by (simp add: one_char_def)
    from Cons.IH [OF n(2), of "x # b"] obtain tl where
      "star (rm Dot) n' (x # b, xs, k) =
         (rev (takeWhile (\<lambda>c. \<not> is_line_terminator c) xs) @ x # b,
          dropWhile (\<lambda>c. \<not> is_line_terminator c) xs, k) # tl"
      by blast
    with False show ?thesis by (simp add: n step progress_def del: rm.simps)
  qed
qed

text \<open>A literal followed by \<^verbatim>\<open>(.*)\<close>, matched where the literal stands.\<close>

lemma lit_rest_here:
  "\<exists>tl. rm (cat [Lit w, Grp 1 (Star Dot)]) (b, w @ rest, Map.empty) =
     (rev (takeWhile (\<lambda>c. \<not> is_line_terminator c) rest) @ rev w @ b,
      dropWhile (\<lambda>c. \<not> is_line_terminator c) rest,
      [1 \<mapsto> takeWhile (\<lambda>c. \<not> is_line_terminator c) rest]) # tl"
proof -
  let ?nt = "\<lambda>c. \<not> is_line_terminator c"
  obtain tl where tl: "star (rm Dot) (length rest) (rev w @ b, rest, Map.empty) =
      (rev (takeWhile ?nt rest) @ rev w @ b, dropWhile ?nt rest, Map.empty) # tl"
    using star_dot_first [of rest "length rest" "rev w @ b" Map.empty] by auto
  have "length (takeWhile ?nt rest) + length (dropWhile ?nt rest) = length rest"
    by (metis takeWhile_dropWhile_id length_append)
  then have "length rest - length (dropWhile ?nt rest) = length (takeWhile ?nt rest)"
    by simp
  then have "take (length rest - length (dropWhile ?nt rest)) rest = takeWhile ?nt rest"
    by (simp add: takeWhile_eq_take [symmetric])
  with tl show ?thesis
    by (simp add: cat_def set_group_def)
qed

lemma search_first:
  assumes "\<And>u v. pre = u @ v \<Longrightarrow> v \<noteq> [] \<Longrightarrow> rm r (rev u @ b, v @ s, Map.empty) = []"
    and "rm r (rev pre @ b, s, Map.empty) = st # rest"
  shows "search r b (pre @ s) = Some (snd (snd st))"
  using assms
proof (induction pre arbitrary: b)
  case Nil
  then show ?case by (cases s) simp_all
next
  case (Cons x xs)
  from Cons.prems(1) [of "[]" "x # xs"] have here: "rm r (b, x # xs @ s, Map.empty) = []"
    by simp
  have "search r (x # b) (xs @ s) = Some (snd (snd st))"
  proof (rule Cons.IH)
    fix u v
    assume "xs = u @ v" "v \<noteq> []"
    with Cons.prems(1) [of "x # u" v] show "rm r (rev u @ x # b, v @ s, Map.empty) = []"
      by simp
  next
    from Cons.prems(2) show "rm r (rev xs @ x # b, s, Map.empty) = st # rest" by simp
  qed
  with here show ?case by simp
qed

text \<open>
  The first place where \<open>w\<close> stands in \<open>pre @ w @ rest\<close> is after \<open>pre\<close> when \<open>w\<close> does not
  occur in \<open>pre\<close> followed by all of \<open>w\<close> but its last character.
\<close>

lemma no_earlier_occurrence:
  assumes "\<not> sublist w (pre @ butlast w)" and "pre = u @ v" and "v \<noteq> []"
  shows "\<not> prefix w (v @ w @ rest)"
proof
  assume p: "prefix w (v @ w @ rest)"
  have "w \<noteq> []" using assms(1) by auto
  then have w: "w = butlast w @ [last w]" by simp
  have "v @ w @ rest = (v @ butlast w) @ last w # rest"
    using w by (metis append_Cons append_Nil append_assoc)
  with p have "prefix w (v @ butlast w) \<or> (\<exists>us. w = (v @ butlast w) @ us)"
    by (auto simp: prefix_append)
  then have "prefix w (v @ butlast w)"
  proof
    assume "\<exists>us. w = (v @ butlast w) @ us"
    then obtain us where us: "w = (v @ butlast w) @ us" by blast
    then have "length w = length v + length (butlast w) + length us"
      by (metis length_append)
    moreover have "1 \<le> length w" "1 \<le> length v"
      using assms(3) \<open>w \<noteq> []\<close> by (simp_all add: Suc_le_eq)
    moreover have "length (butlast w) = length w - 1" by simp
    ultimately have "length us = 0" by linarith
    with us show ?thesis by simp
  qed
  then obtain t' where "v @ butlast w = w @ t'" by (auto simp: prefix_def)
  with assms(2) have "pre @ butlast w = u @ w @ t'" by simp
  with assms(1) show False unfolding sublist_def by blast
qed

lemma lit_rest_match:
  assumes "\<not> sublist w (pre @ butlast w)"
  shows "js_match (pre @ w @ rest) (cat [Lit w, Grp 1 (Star Dot)]) =
           Some [1 \<mapsto> takeWhile (\<lambda>c. \<not> is_line_terminator c) rest]"
proof -
  obtain tl where here: "rm (cat [Lit w, Grp 1 (Star Dot)]) (rev pre @ [], w @ rest, Map.empty) =
     (rev (takeWhile (\<lambda>c. \<not> is_line_terminator c) rest) @ rev w @ rev pre @ [],
      dropWhile (\<lambda>c. \<not> is_line_terminator c) rest,
      [1 \<mapsto> takeWhile (\<lambda>c. \<not> is_line_terminator c) rest]) # tl"
    using lit_rest_here by blast
  have "rm (cat [Lit w, Grp 1 (Star Dot)]) (rev u @ [], v @ w @ rest, Map.empty) = []"
    if "pre = u @ v" "v \<noteq> []" for u v
    using no_earlier_occurrence [OF assms that] by (simp add: cat_def)
  from search_first [of pre "cat [Lit w, Grp 1 (Star Dot)]" "[]" "w @ rest", OF this here]
  show ?thesis by (simp add: js_match_def)
qed

lemma lit_rest_no_match:
  assumes "\<not> sublist w ln"
  shows "js_match ln (cat [Lit w, Grp 1 (Star Dot)]) = None"
  using js_match_first_lit [of ln w] assms
  by (cases "js_match ln (cat [Lit w, Grp 1 (Star Dot)])") (auto simp: cat_def)

subsection \<open>Comments of a well-formed text\<close>

lemma split_nl_line: "CHR 0x0A \<notin> set l \<Longrightarrow> split_nl (l @ CHR 0x0A # r) = l # split_nl r"
  by (induction l) auto

lemma split_join:
  "ls \<noteq> [] \<Longrightarrow> \<forall>l \<in> set ls. CHR 0x0A \<notin> set l \<Longrightarrow> split_nl (join_nl ls) = ls"
proof (induction ls rule: join_nl.induct)
  case 1
  then show ?case by simp
next
  case (2 l)
  then show ?case by (simp add: split_nl_single)
next
  case (3 l l' ls)
  then show ?case by (simp add: split_nl_line)
qed

lemma comments_loop_append:
  "comments_loop pats s (xs @ ys) i =
     (case comments_loop pats s xs i of
        Inl e \<Rightarrow> Inl e
      | Inr s' \<Rightarrow> comments_loop pats s' ys (i + length xs))"
  by (induction xs arbitrary: s i) (auto split: sum.splits)

lemma single_none:
  "\<not> sublist ''//'' ln \<Longrightarrow> single_step c_singleLineComment s ln n = Inr s"
  using lit_rest_no_match [of "''//''" ln]
  by (simp add: single_step_def c_singleLineComment_def)

lemma single_some:
  "\<not> sublist ''//'' (pre @ ''/'') \<Longrightarrow>
   single_step c_singleLineComment s (pre @ ''//'' @ rest) n =
     Inr (s\<lparr>comments := comments s @ [single_element n (trim (upto_terminator rest))]\<rparr>)"
  using lit_rest_match [of "''//''" pre rest]
  by (simp add: single_step_def c_singleLineComment_def upto_terminator_def)

lemma start_none:
  "\<not> sublist ''/*'' ln \<Longrightarrow>
   start_step c_multiLineCommentStart c_multiLineCommentEnd s ln n = s"
  using lit_rest_no_match [of "''/*''" ln]
  by (simp add: start_step_def c_multiLineCommentStart_def)

lemma start_open:
  assumes "\<not> sublist ''/*'' (pre @ ''/'')" and "\<not> sublist ''*/'' (pre @ ''/*'' @ rest)"
  shows "start_step c_multiLineCommentStart c_multiLineCommentEnd s (pre @ ''/*'' @ rest) n =
     s\<lparr>inMultiLineComment := True, multiLineStartLine := n,
       multiLineContent := upto_terminator rest\<rparr>"
proof -
  have "js_match (pre @ ''/*'' @ rest) c_multiLineCommentEnd = None"
    using end_pattern_iff [of "pre @ ''/*'' @ rest"] assms(2) by simp
  then show ?thesis
    using lit_rest_match [of "''/*''" pre rest] assms(1)
    by (simp add: start_step_def c_multiLineCommentStart_def upto_terminator_def truthy_def)
qed

lemma start_closed:
  assumes "\<not> sublist ''/*'' (pre @ ''/'')" and "sublist ''*/'' rest"
  shows "start_step c_multiLineCommentStart c_multiLineCommentEnd s (pre @ ''/*'' @ rest) n =
     s\<lparr>inMultiLineComment := False, multiLineStartLine := n, multiLineContent := [],
       comments := comments s @ [multi_element n (upto_terminator rest)]\<rparr>"
proof -
  from assms(2) obtain u t where "rest = u @ ''*/'' @ t" unfolding sublist_def by blast
  then have "pre @ ''/*'' @ rest = (pre @ ''/*'' @ u) @ ''*/'' @ t" by simp
  then have "sublist ''*/'' (pre @ ''/*'' @ rest)" unfolding sublist_def by blast
  then obtain m where "js_match (pre @ ''/*'' @ rest) c_multiLineCommentEnd = Some m"
    using end_pattern_iff [of "pre @ ''/*'' @ rest"] by auto
  then show ?thesis
    using lit_rest_match [of "''/*''" pre rest] assms(1)
    by (simp add: start_step_def c_multiLineCommentStart_def upto_terminator_def truthy_def)
qed

lemma block_inner:
  "\<not> sublist ''*/'' ln \<Longrightarrow>
   in_block_step c_multiLineCommentEnd s ln =
     s\<lparr>multiLineContent := multiLineContent s @ CHR 0x0A # ln\<rparr>"
  using end_pattern_iff [of ln] by (simp add: in_block_step_def)

lemma block_close:
  assumes "sublist ''*/'' ln"
  shows "in_block_step c_multiLineCommentEnd s ln =
     s\<lparr>multiLineContent := [], inMultiLineComment := False,
       comments := comments s @
         [multi_element (multiLineStartLine s) (multiLineContent s @ CHR 0x0A # ln)]\<rparr>"
proof -
  from assms obtain m where "js_match ln c_multiLineCommentEnd = Some m"
    using end_pattern_iff [of ln] by auto
  then show ?thesis by (simp add: in_block_step_def)
qed

lemma inner_lines:
  "inMultiLineComment s \<Longrightarrow> \<forall>l \<in> set ls. \<not> sublist ''*/'' l \<Longrightarrow>
   comments_loop c_patterns s ls i =
     Inr (s\<lparr>multiLineContent := multiLineContent s @ concat (map (\<lambda>l. CHR 0x0A # l) ls)\<rparr>)"
proof (induction ls arbitrary: s i)
  case Nil
  then show ?case by simp
next
  case (Cons l ls)
  let ?s = "s\<lparr>multiLineContent := multiLineContent s @ CHR 0x0A # l\<rparr>"
  from Cons.prems have step: "comment_step c_patterns s l (i + 1) = Inr ?s"
    by (simp add: comment_step_def c_patterns_def block_inner)
  from Cons.prems have "comments_loop c_patterns ?s ls (i + 1) =
     Inr (?s\<lparr>multiLineContent := multiLineContent ?s @ concat (map (\<lambda>l. CHR 0x0A # l) ls)\<rparr>)"
    by (intro Cons.IH) simp_all
  with step show ?case by simp
qed

lemma line_code:
  assumes "\<not> inMultiLineComment s" and "\<not> sublist ''//'' ln" and "\<not> sublist ''/*'' ln"
  shows "comment_step c_patterns s ln n = Inr s"
  using assms by (simp add: comment_step_def c_patterns_def single_none start_none)

lemma line_comment:
  assumes "\<not> inMultiLineComment s" and "ln = pre @ ''//'' @ rest"
    and "\<not> sublist ''//'' (pre @ ''/'')" and "\<not> sublist ''/*'' ln"
  shows "comment_step c_patterns s ln n =
     Inr (s\<lparr>comments := comments s @ [single_element n (trim (upto_terminator rest))]\<rparr>)"
proof -
  have a: "single_step c_singleLineComment s ln n =
     Inr (s\<lparr>comments := comments s @ [single_element n (trim (upto_terminator rest))]\<rparr>)"
    unfolding assms(2) using assms(3) by (rule single_some)
  show ?thesis
    using assms(1,4) by (simp add: comment_step_def c_patterns_def a start_none)
qed

lemma line_block_one:
  assumes "\<not> inMultiLineComment s" and "ln = pre @ ''/*'' @ rest"
    and "\<not> sublist ''/*'' (pre @ ''/'')" and "\<not> sublist ''//'' ln" and "sublist ''*/'' rest"
  shows "comment_step c_patterns s ln n =
     Inr (s\<lparr>inMultiLineComment := False, multiLineStartLine := n, multiLineContent := [],
           comments := comments s @ [multi_element n (upto_terminator rest)]\<rparr>)"
proof -
  have b: "start_step c_multiLineCommentStart c_multiLineCommentEnd s ln n =
     s\<lparr>inMultiLineComment := False, multiLineStartLine := n, multiLineContent := [],
       comments := comments s @ [multi_element n (upto_terminator rest)]\<rparr>"
    unfolding assms(2) using assms(3,5) by (rule start_closed)
  show ?thesis
    using assms(1,4) by (simp add: comment_step_def c_patterns_def single_none b)
qed

lemma line_block_open:
  assumes "\<not> inMultiLineComment s" and "ln = pre @ ''/*'' @ rest"
    and "\<not> sublist ''/*'' (pre @ ''/'')" and "\<not> sublist ''//'' ln" and "\<not> sublist ''*/'' ln"
  shows "comment_step c_patterns s ln n =
     Inr (s\<lparr>inMultiLineComment := True, multiLineStartLine := n,
           multiLineContent := upto_terminator rest\<rparr>)"
proof -
  have b: "start_step c_multiLineCommentStart c_multiLineCommentEnd s ln n =
     s\<lparr>inMultiLineComment := True, multiLineStartLine := n,
       multiLineContent := upto_terminator rest\<rparr>"
    using assms(3,5) unfolding assms(2) by (rule start_open)
  show ?thesis
    using assms(1,4) by (simp add: comment_step_def c_patterns_def single_none b)
qed

lemma line_block_and_comment:
  assumes "\<not> inMultiLineComment s" and "ln = pre @ ''/*'' @ mid @ ''//'' @ rest"
    and "\<not> sublist ''/*'' (pre @ ''/'')" and "\<not> sublist ''//'' (pre @ ''/*'' @ mid @ ''/'')"
    and "sublist ''*/'' mid"
  shows "comment_step c_patterns s ln n =
     Inr (s\<lparr>inMultiLineComment := False, multiLineStartLine := n, multiLineContent := [],
           comments := comments s @
             [single_element n (trim (upto_terminator rest)),
              multi_element n (upto_terminator (mid @ ''//'' @ rest))]\<rparr>)"
proof -
  let ?s1 = "s\<lparr>comments := comments s @ [single_element n (trim (upto_terminator rest))]\<rparr>"
  have ln': "ln = (pre @ ''/*'' @ mid) @ ''//'' @ rest"
    by (simp add: assms(2))
  have a: "single_step c_singleLineComment s ln n = Inr ?s1"
    unfolding ln' using assms(4) by (intro single_some) simp
  from assms(5) obtain u t where "mid = u @ ''*/'' @ t" unfolding sublist_def by blast
  then have "mid @ ''//'' @ rest = u @ ''*/'' @ (t @ ''//'' @ rest)" by simp
  then have closes: "sublist ''*/'' (mid @ ''//'' @ rest)" unfolding sublist_def by blast
  have b: "start_step c_multiLineCommentStart c_multiLineCommentEnd ?s1 ln n =
     ?s1\<lparr>inMultiLineComment := False, multiLineStartLine := n, multiLineContent := [],
       comments := comments ?s1 @ [multi_element n (upto_terminator (mid @ ''//'' @ rest))]\<rparr>"
    unfolding assms(2) using assms(3) closes by (rule start_closed)
  show ?thesis
    using assms(1) by (simp add: comment_step_def c_patterns_def a b)
qed

text \<open>The patterns of python on a line without a triple quote.\<close>

lemma py_start_no_match:
  assumes "\<not> sublist sq3 ln" and "\<not> sublist dq3 ln"
  shows "js_match ln py_multiLineCommentStart = None"
proof (cases "js_match ln py_multiLineCommentStart")
  case None
  then show ?thesis .
next
  case (Some m)
  then have "search py_multiLineCommentStart [] ln = Some m" by (simp add: js_match_def)
  from search_Some [OF this] obtain b' s' st rest where
    ln: "rev b' @ s' = ln" and st: "rm py_multiLineCommentStart (b', s', Map.empty) = st # rest"
    by auto
  from st have "rm (Alt (Lit sq3) (Lit dq3)) (b', s', Map.empty) \<noteq> []"
    by (auto simp: py_multiLineCommentStart_def cat_def simp del: rm.simps(1))
  then have "prefix sq3 s' \<or> prefix dq3 s'"
    by (auto split: if_splits)
  then obtain w t where "w = sq3 \<or> w = dq3" "s' = w @ t"
    by (auto simp: prefix_def)
  with ln have "w = sq3 \<or> w = dq3" "ln = rev b' @ w @ t" by simp_all
  then have "sublist sq3 ln \<or> sublist dq3 ln" unfolding sublist_def by blast
  with assms show ?thesis by simp
qed

lemma py_line_code:
  assumes "\<not> inMultiLineComment s" and "\<not> sublist ''#'' ln"
    and "\<not> sublist sq3 ln" and "\<not> sublist dq3 ln"
  shows "comment_step py_patterns s ln n = Inr s"
proof -
  have a: "single_step py_singleLineComment s ln n = Inr s"
    using lit_rest_no_match [of "''#''" ln] assms(2)
    by (simp add: single_step_def py_singleLineComment_def)
  have b: "start_step py_multiLineCommentStart py_multiLineCommentEnd s ln n = s"
    using py_start_no_match [OF assms(3,4)] by (simp add: start_step_def)
  show ?thesis
    using assms(1) by (simp add: comment_step_def py_patterns_def a b)
qed

lemma py_line_comment:
  assumes "\<not> inMultiLineComment s" and "ln = pre @ ''#'' @ rest" and "\<not> sublist ''#'' pre"
    and "\<not> sublist sq3 ln" and "\<not> sublist dq3 ln"
  shows "comment_step py_patterns s ln n =
     Inr (s\<lparr>comments := comments s @ [single_element n (trim (upto_terminator rest))]\<rparr>)"
proof -
  let ?s1 = "s\<lparr>comments := comments s @ [single_element n (trim (upto_terminator rest))]\<rparr>"
  have a: "single_step py_singleLineComment s ln n = Inr ?s1"
    unfolding assms(2) using lit_rest_match [of "''#''" pre rest] assms(3)
    by (simp add: single_step_def py_singleLineComment_def upto_terminator_def)
  have b: "start_step py_multiLineCommentStart py_multiLineCommentEnd ?s1 ln n = ?s1"
    using py_start_no_match [OF assms(4,5)] by (simp add: start_step_def)
  show ?thesis
    using assms(1) by (simp add: comment_step_def py_patterns_def a b)
qed

lemma py_item_step:
  assumes "\<not> inMultiLineComment s" and "item_ok ''python'' it"
  shows "\<exists>s'. comments_loop py_patterns s (item_lines ''python'' it) i = Inr s' \<and>
           \<not> inMultiLineComment s' \<and>
           comments s' = comments s @ item_elements (i + 1) it"
proof (cases it)
  case (Code ln)
  from assms(2) Code have ok: "\<not> sublist ''#'' ln" "\<not> sublist sq3 ln" "\<not> sublist dq3 ln"
    by (simp_all add: single_marker_def has_opener_def)
  from py_line_code [OF assms(1) ok, of "i + 1"] assms(1) show ?thesis
    by (simp add: Code)
next
  case (LineComment pre rest)
  define ln where "ln = pre @ ''#'' @ rest"
  from assms(2) LineComment have ok: "\<not> sublist ''#'' pre" "\<not> sublist sq3 ln"
    "\<not> sublist dq3 ln"
    by (simp_all add: ln_def single_marker_def has_opener_def)
  have "item_lines ''python'' it = [ln]"
    by (simp add: LineComment ln_def single_marker_def)
  with py_line_comment [OF assms(1) ln_def ok, of "i + 1"] assms(1) show ?thesis
    by (simp add: LineComment)
next
  case (BlockOne pre rest)
  with assms(2) show ?thesis by simp
next
  case (BlockAndComment pre mid rest)
  with assms(2) show ?thesis by simp
next
  case (Block pre first interior closing)
  with assms(2) show ?thesis by simp
qed

lemma c_item_step:
  assumes "lang \<noteq> ''python''" and "\<not> inMultiLineComment s" and "item_ok lang it"
  shows "\<exists>s'. comments_loop c_patterns s (item_lines lang it) i = Inr s' \<and>
           \<not> inMultiLineComment s' \<and>
           comments s' = comments s @ item_elements (i + 1) it"
proof (cases it)
  case (Code ln)
  from assms(1,3) Code have ok: "\<not> sublist ''//'' ln" "\<not> sublist ''/*'' ln"
    by (simp_all add: single_marker_def has_opener_def)
  from line_code [OF assms(2) ok, of "i + 1"] assms(2) show ?thesis
    by (simp add: Code)
next
  case (LineComment pre rest)
  define ln where "ln = pre @ ''//'' @ rest"
  from assms(1,3) LineComment have ok: "\<not> sublist ''//'' (pre @ ''/'')" "\<not> sublist ''/*'' ln"
    by (simp_all add: ln_def single_marker_def has_opener_def)
  have "item_lines lang it = [ln]"
    using assms(1) by (simp add: LineComment ln_def single_marker_def)
  with line_comment [OF assms(2) ln_def ok, of "i + 1"] assms(2) show ?thesis
    by (simp add: LineComment)
next
  case (BlockOne pre rest)
  define ln where "ln = pre @ ''/*'' @ rest"
  from assms(3) BlockOne have ok: "\<not> sublist ''/*'' (pre @ ''/'')" "\<not> sublist ''//'' ln"
    "sublist ''*/'' rest"
    by (simp_all add: ln_def)
  have "item_lines lang it = [ln]" by (simp add: BlockOne ln_def)
  with line_block_one [OF assms(2) ln_def ok, of "i + 1"] show ?thesis
    by (simp add: BlockOne)
next
  case (BlockAndComment pre mid rest)
  define ln where "ln = pre @ ''/*'' @ mid @ ''//'' @ rest"
  from assms(3) BlockAndComment have ok: "\<not> sublist ''/*'' (pre @ ''/'')"
    "\<not> sublist ''//'' (pre @ ''/*'' @ mid @ ''/'')" "sublist ''*/'' mid"
    by simp_all
  have "item_lines lang it = [ln]" by (simp add: BlockAndComment ln_def)
  with line_block_and_comment [OF assms(2) ln_def ok, of "i + 1"] show ?thesis
    by (simp add: BlockAndComment)
next
  case (Block pre first interior closing)
  define ln where "ln = pre @ ''/*'' @ first"
  let ?s1 = "s\<lparr>inMultiLineComment := True, multiLineStartLine := i + 1,
       multiLineContent := upto_terminator first\<rparr>"
  let ?s2 = "?s1\<lparr>multiLineContent :=
       multiLineContent ?s1 @ concat (map (\<lambda>l. CHR 0x0A # l) interior)\<rparr>"
  from Block assms(3) have ok: "\<not> sublist ''/*'' (pre @ ''/'')"
    "\<not> sublist ''//'' ln" "\<not> sublist ''*/'' ln"
    "\<forall>l \<in> set interior. \<not> sublist ''*/'' l" "sublist ''*/'' closing"
    by (simp_all add: ln_def)
  have lines: "item_lines lang it = [ln] @ interior @ [closing]"
    by (simp add: Block ln_def)
  have first: "comments_loop c_patterns s [ln] i = Inr ?s1"
    using line_block_open [OF assms(2) ln_def ok(1,2,3), of "i + 1"] by simp
  have inner: "comments_loop c_patterns ?s1 interior (i + 1) = Inr ?s2"
    using ok(4) by (intro inner_lines) simp_all
  have last: "comments_loop c_patterns ?s2 [closing] (i + 1 + length interior) =
      Inr (in_block_step c_multiLineCommentEnd ?s2 closing)"
    by (simp add: comment_step_def c_patterns_def)
  have "comments_loop c_patterns s (item_lines lang it) i =
      Inr (in_block_step c_multiLineCommentEnd ?s2 closing)"
    unfolding lines comments_loop_append [of _ _ "[ln]"] first
      comments_loop_append [of _ _ interior]
    using inner last by simp
  then show ?thesis
    using ok(5) by (simp add: Block block_close)
qed

lemma comment_patterns_cases:
  assumes "commentPatterns lang = Some pats"
  shows "if lang = ''python'' then pats = py_patterns else pats = c_patterns"
  using assms by (auto simp: commentPatterns_def c_patterns_def py_patterns_def split: if_splits)

lemma item_step:
  assumes "commentPatterns lang = Some pats" and "\<not> inMultiLineComment s"
    and "item_ok lang it"
  shows "\<exists>s'. comments_loop pats s (item_lines lang it) i = Inr s' \<and>
           \<not> inMultiLineComment s' \<and>
           comments s' = comments s @ item_elements (i + 1) it"
proof (cases "lang = ''python''")
  case True
  with comment_patterns_cases [OF assms(1)] have "pats = py_patterns" by simp
  with py_item_step [of s it i] assms(2,3) True show ?thesis by simp
next
  case False
  with comment_patterns_cases [OF assms(1)] have "pats = c_patterns" by simp
  with c_item_step [OF False assms(2,3), of i] show ?thesis by simp
qed

lemma items_loop:
  assumes "commentPatterns lang = Some pats" and "\<forall>it \<in> set items. item_ok lang it"
  shows "\<not> inMultiLineComment s \<Longrightarrow>
         \<exists>s'. comments_loop pats s (concat (map (item_lines lang) items)) i = Inr s' \<and>
           \<not> inMultiLineComment s' \<and> comments s' = comments s @ expected lang (i + 1) items"
  using assms(2)
proof (induction items arbitrary: s i)
  case Nil
  then show ?case by simp
next
  case (Cons it items)
  from Cons.prems have "item_ok lang it" by simp
  from item_step [OF assms(1) Cons.prems(1) this, of i] obtain s1 where
    s1: "comments_loop pats s (item_lines lang it) i = Inr s1" "\<not> inMultiLineComment s1"
    "comments s1 = comments s @ item_elements (i + 1) it"
    by blast
  from Cons.prems have "\<forall>it \<in> set items. item_ok lang it" by simp
  from Cons.IH [OF s1(2) this, of "i + length (item_lines lang it)"] obtain s' where
    "comments_loop pats s1 (concat (map (item_lines lang) items))
       (i + length (item_lines lang it)) = Inr s'"
    "\<not> inMultiLineComment s'"
    "comments s' = comments s1 @ expected lang (i + length (item_lines lang it) + 1) items"
    by blast
  with s1 show ?case
    by (simp add: comments_loop_append add.commute add.left_commute)
qed

lemma supported_patterns:
  "lang \<in> {''javascript'', ''typescript'', ''python'', ''java'', ''go''} \<Longrightarrow>
   \<exists>pats. commentPatterns lang = Some pats"
  by (auto simp: commentPatterns_def)

lemma expected_length:
  "length (expected lang n items) =
     length (filter is_single_item items) + length (filter is_block_item items)"
proof (induction items arbitrary: n)
  case Nil
  show ?case by simp
next
  case (Cons it items)
  then show ?case by (cases it) simp_all
qed

text \<open>
  C1, as amended. In every supported language, take a text whose lines are, in any order,
  lines of code without comment markers and lines with one single-line comment and no
  block opener, and, in javascript, typescript, java and go, also lines with one block
  that opens and closes on them, alone or followed by a single-line comment, and blocks
  that span several lines; a block holds no \<^verbatim>\<open>//\<close> up to its closer on the line that
  opens it. \<^verbatim>\<open>extractComments\<close> returns one element per single-line comment and one per
  block, in the order of the text (on a line with both, the single-line comment first),
  each with the 1-based number of the line on which the comment starts. The content of a
  single-line element is the text after the marker up to the first line terminator of the
  line, trimmed; the content of a block is the text after \<^verbatim>\<open>/*\<close> up to the first line
  terminator of its line, followed by the later lines of the block up to the end of the
  closing line, joined by newlines and not trimmed. What follows the closer on the last
  line of a block of several lines belongs to the content of the block and gives no
  element of its own.
\<close>

theorem comments_of_well_formed_text:
  assumes "lang \<in> {''javascript'', ''typescript'', ''python'', ''java'', ''go''}"
    and "\<forall>it \<in> set items. item_ok lang it"
    and "\<forall>ln \<in> set (concat (map (item_lines lang) items)). CHR 0x0A \<notin> set ln"
  shows "extractComments (join_nl (concat (map (item_lines lang) items))) lang =
           Inr (expected lang 1 items) \<and>
         length (expected lang 1 items) =
           length (filter is_single_item items) + length (filter is_block_item items)"
proof -
  let ?ls = "concat (map (item_lines lang) items)"
  from supported_patterns [OF assms(1)] obtain pats where pats: "commentPatterns lang = Some pats"
    by blast
  have open0: "\<not> inMultiLineComment init_cstate" by (simp add: init_cstate_def)
  have "\<exists>s'. comments_loop pats init_cstate (split_nl (join_nl ?ls)) 0 = Inr s' \<and>
          comments s' = expected lang 1 items"
  proof (cases "items = []")
    case True
    have "item_ok lang (Code [])"
      by (simp add: single_marker_def has_opener_def sq3_def dq3_def)
    from item_step [OF pats open0 this, of 0] obtain s' where
      "comments_loop pats init_cstate [[]] 0 = Inr s'" "comments s' = []"
      by (auto simp: init_cstate_def)
    with True show ?thesis by simp
  next
    case False
    then have "?ls \<noteq> []"
      by (cases items; cases "hd items") auto
    with assms(3) have "split_nl (join_nl ?ls) = ?ls" by (intro split_join)
    with items_loop [OF pats assms(2) open0, of 0] show ?thesis
      by (auto simp: init_cstate_def)
  qed
  then have "extractComments (join_nl ?ls) lang = Inr (expected lang 1 items)"
    using pats by (auto simp: extractComments_def)
  then show ?thesis
    using expected_length by simp
qed

theorem comments_of_well_formed_text_witness:
  "''javascript'' \<in> {''javascript'', ''typescript'', ''python'', ''java'', ''go''} \<and>
   list_all (item_ok ''javascript'') sample_items \<and>
   list_all (\<lambda>ln. CHR 0x0A \<notin> set ln) (concat (map (item_lines ''javascript'') sample_items)) \<and>
   join_nl (concat (map (item_lines ''javascript'') sample_items)) =
     ''// a'' @ [CHR 0x0A] @ ''x = 1'' @ [CHR 0x0A] @ ''  /*'' @ [CHR 0x0A] @ '' * b'' @
     [CHR 0x0A] @ '' */'' @ [CHR 0x0A] @ ''/* c */'' @ [CHR 0x0A] @ ''y /* d */ // e'' \<and>
   extractComments (join_nl (concat (map (item_lines ''javascript'') sample_items)))
       ''javascript'' =
     Inr [single_element 1 ''a'',
          multi_element 3 ([CHR 0x0A] @ '' * b'' @ [CHR 0x0A] @ '' */''),
          multi_element 6 '' c */'',
          single_element 7 ''e'',
          multi_element 7 '' d */ // e''] \<and>
   length (filter is_single_item sample_items) + length (filter is_block_item sample_items) = 5 \<and>
   ''python'' \<in> {''javascript'', ''typescript'', ''python'', ''java'', ''go''} \<and>
   list_all (item_ok ''python'') sample_py_items \<and>
   list_all (\<lambda>ln. CHR 0x0A \<notin> set ln) (concat (map (item_lines ''python'') sample_py_items)) \<and>
   join_nl (concat (map (item_lines ''python'') sample_py_items)) =
     ''x = 1'' @ [CHR 0x0A] @ ''y = 2  # note '' @ [CHR 0x0A] \<and>
   extractComments (join_nl (concat (map (item_lines ''python'') sample_py_items))) ''python'' =
     Inr [single_element 2 ''note''] \<and>
   length (filter is_single_item sample_py_items) +
     length (filter is_block_item sample_py_items) = 1"
proof -
  have h1: "''javascript'' \<in> {''javascript'', ''typescript'', ''python'', ''java'', ''go''}"
    by simp
  have h2: "list_all (item_ok ''javascript'') sample_items"
    by code_simp
  have h3: "list_all (\<lambda>ln. CHR 0x0A \<notin> set ln)
      (concat (map (item_lines ''javascript'') sample_items))"
    by code_simp
  have joined: "join_nl (concat (map (item_lines ''javascript'') sample_items)) =
     ''// a'' @ [CHR 0x0A] @ ''x = 1'' @ [CHR 0x0A] @ ''  /*'' @ [CHR 0x0A] @ '' * b'' @
     [CHR 0x0A] @ '' */'' @ [CHR 0x0A] @ ''/* c */'' @ [CHR 0x0A] @ ''y /* d */ // e''"
    by code_simp
  have ex: "expected ''javascript'' 1 sample_items =
     [single_element 1 ''a'',
      multi_element 3 ([CHR 0x0A] @ '' * b'' @ [CHR 0x0A] @ '' */''),
      multi_element 6 '' c */'',
      single_element 7 ''e'',
      multi_element 7 '' d */ // e'']"
    by code_simp
  have cnt: "length (filter is_single_item sample_items) +
      length (filter is_block_item sample_items) = 5"
    by (simp add: sample_items_def)
  from comments_of_well_formed_text [OF h1 h2 [unfolded list_all_iff] h3 [unfolded list_all_iff]]
  have res: "extractComments (join_nl (concat (map (item_lines ''javascript'') sample_items)))
       ''javascript'' =
     Inr [single_element 1 ''a'',
          multi_element 3 ([CHR 0x0A] @ '' * b'' @ [CHR 0x0A] @ '' */''),
          multi_element 6 '' c */'',
          single_element 7 ''e'',
          multi_element 7 '' d */ // e'']"
    unfolding ex by (rule conjunct1)
  have p1: "''python'' \<in> {''javascript'', ''typescript'', ''python'', ''java'', ''go''}"
    by simp
  have p2: "list_all (item_ok ''python'') sample_py_items"
    by code_simp
  have p3: "list_all (\<lambda>ln. CHR 0x0A \<notin> set ln)
      (concat (map (item_lines ''python'') sample_py_items))"
    by code_simp
  have pjoined: "join_nl (concat (map (item_lines ''python'') sample_py_items)) =
     ''x = 1'' @ [CHR 0x0A] @ ''y = 2  # note '' @ [CHR 0x0A]"
    by code_simp
  have pex: "expected ''python'' 1 sample_py_items = [single_element 2 ''note'']"
    by code_simp
  have pcnt: "length (filter is_single_item sample_py_items) +
      length (filter is_block_item sample_py_items) = 1"
    by (simp add: sample_py_items_def)
  from comments_of_well_formed_text [OF p1 p2 [unfolded list_all_iff] p3 [unfolded list_all_iff]]
  have pres: "extractComments (join_nl (concat (map (item_lines ''python'') sample_py_items)))
       ''python'' = Inr [single_element 2 ''note'']"
    unfolding pex by (rule conjunct1)
  show ?thesis
    by (intro conjI h1 h2 h3 joined res cnt p1 p2 p3 pjoined pres pcnt)
qed

text \<open>
  C1 as stated fails. In javascript the content of a block on one line is the untrimmed
  text after its opener, closer included. In python a docstring block of three lines gives
  two elements, one for each line that holds the delimiter. In javascript a block that
  holds \<^verbatim>\<open>//\<close> gives a single-line element too; two blocks on one line give one element;
  a single-line comment after the closer of a block of two lines gives no element; and a
  single-line comment that holds \<^verbatim>\<open>/*\<close> opens a block that hides the comment on the next
  line.
\<close>

theorem comments_of_well_formed_text_counterexample:
  "extractComments ''/* a */'' ''javascript'' = Inr [multi_element 1 '' a */''] \<and>
   trim '' a */'' \<noteq> '' a */'' \<and>
   extractComments (dq3 @ [CHR 0x0A] @ ''doc'' @ [CHR 0x0A] @ dq3) ''python'' =
     Inr [multi_element 1 dq3, multi_element 3 dq3] \<and>
   extractComments ''/* see http://x */'' ''javascript'' =
     Inr [single_element 1 ''x */'', multi_element 1 '' see http://x */''] \<and>
   extractComments ''/* a */ /* b */'' ''javascript'' =
     Inr [multi_element 1 '' a */ /* b */''] \<and>
   extractComments (''/*'' @ [CHR 0x0A] @ ''*/ // d'') ''javascript'' =
     Inr [multi_element 1 ([CHR 0x0A] @ ''*/ // d'')] \<and>
   extractComments (''// a /* b'' @ [CHR 0x0A] @ ''// c'') ''javascript'' =
     Inr [single_element 1 ''a /* b'']"
  by code_simp

subsection \<open>Unterminated blocks\<close>

text \<open>
  In javascript, typescript, java and go, a block that opens after a well-formed text and
  is not closed before the end of the input gives no element: the result is that of the
  text before it. The line that opens the block has no \<^verbatim>\<open>//\<close> and no closer, also not
  the closer that shares its \<^verbatim>\<open>*\<close> with the opener.
\<close>

lemma c_style_unterminated_block:
  assumes "lang \<in> {''javascript'', ''typescript'', ''java'', ''go''}"
    and "\<forall>it \<in> set items. item_ok lang it"
    and "\<forall>ln \<in> set (concat (map (item_lines lang) items) @ opening # rest).
           CHR 0x0A \<notin> set ln"
    and "opening = pre @ ''/*'' @ first" and "\<not> sublist ''/*'' (pre @ ''/'')"
    and "\<not> sublist ''//'' opening" and "\<not> sublist ''*/'' opening"
    and "\<forall>l \<in> set rest. \<not> sublist ''*/'' l"
  shows "extractComments (join_nl (concat (map (item_lines lang) items) @ opening # rest)) lang =
           Inr (expected lang 1 items)"
proof -
  let ?ls = "concat (map (item_lines lang) items)"
  have pats: "commentPatterns lang = Some c_patterns"
    using assms(1) by (auto simp: commentPatterns_def c_patterns_def)
  have open0: "\<not> inMultiLineComment init_cstate" by (simp add: init_cstate_def)
  have split: "split_nl (join_nl (?ls @ opening # rest)) = ?ls @ opening # rest"
    using assms(3) split_join [of "?ls @ opening # rest"] by simp
  from items_loop [OF pats assms(2) open0, of 0] obtain s1 where
    s1: "comments_loop c_patterns init_cstate ?ls 0 = Inr s1" "\<not> inMultiLineComment s1"
    "comments s1 = expected lang 1 items"
    by (auto simp: init_cstate_def)
  let ?s2 = "s1\<lparr>inMultiLineComment := True, multiLineStartLine := length ?ls + 1,
       multiLineContent := upto_terminator first\<rparr>"
  let ?s3 = "?s2\<lparr>multiLineContent := multiLineContent ?s2 @ concat (map (\<lambda>l. CHR 0x0A # l) rest)\<rparr>"
  have s2: "comment_step c_patterns s1 opening (length ?ls + 1) = Inr ?s2"
    using line_block_open [OF s1(2) assms(4,5,6,7), of "length ?ls + 1"] .
  have s3: "comments_loop c_patterns ?s2 rest (length ?ls + 1) = Inr ?s3"
    using assms(8) by (intro inner_lines) simp_all
  have "comments_loop c_patterns init_cstate (?ls @ opening # rest) 0 = Inr ?s3"
    using s2 s3 by (simp add: comments_loop_append s1(1))
  with pats split s1(3) show ?thesis
    by (simp add: extractComments_def)
qed

text \<open>
  The closer may share its \<^verbatim>\<open>*\<close> with the opener: then the block is closed on the line
  that opens it, and that line gives an element although no closer follows.
\<close>

lemma c_style_overlapping_closer:
  "extractComments ''/*/ never closed'' ''javascript'' =
     Inr [multi_element 1 ''/ never closed'']"
  by code_simp

text \<open>
  C4 at a failing input. In python the line that opens a docstring block also matches the
  end pattern, which finds the opening delimiter itself, so the block that is never closed
  gives an element whose content is the delimiter.
\<close>

theorem python_unterminated_block_emitted:
  "extractComments (dq3 @ [CHR 0x0A] @ ''never closed'') ''python'' = Inr [multi_element 1 dq3]"
  by code_simp

end
